theory Spec2Isabelle
  imports Complex_Main
begin

section \<open>Python strings\<close>

text \<open>
  A Python \<open>str\<close> is a sequence of Unicode code points; a code point is a natural
  number. ASCII literals of the source are written with \<open>u\<close>.
\<close>

type_synonym str = "nat list"

definition u :: "string \<Rightarrow> str" where
  "u s = map of_char s"

text \<open>
  \<open>str.isspace\<close> for one code point, which is also the class \<open>\s\<close> of \<open>re\<close> on
  \<open>str\<close> patterns and the set removed by \<open>str.strip()\<close>: U+0009..U+000D,
  U+001C..U+0020, U+0085, U+00A0, U+1680, U+2000..U+200A, U+2028, U+2029, U+202F,
  U+205F, U+3000.
\<close>

definition isspace :: "nat \<Rightarrow> bool" where
  "isspace c \<longleftrightarrow>
     (9 \<le> c \<and> c \<le> 13) \<or> (28 \<le> c \<and> c \<le> 32) \<or> c = 133 \<or> c = 160 \<or> c = 5760 \<or>
     (8192 \<le> c \<and> c \<le> 8202) \<or> c = 8232 \<or> c = 8233 \<or> c = 8239 \<or> c = 8287 \<or>
     c = 12288"

definition lstrip :: "str \<Rightarrow> str" where
  "lstrip s = dropWhile isspace s"

definition rstrip :: "str \<Rightarrow> str" where
  "rstrip s = rev (dropWhile isspace (rev s))"

definition strip :: "str \<Rightarrow> str" where
  "strip s = rstrip (lstrip s)"

definition startswith :: "str \<Rightarrow> str \<Rightarrow> bool" where
  "startswith s p \<longleftrightarrow> take (length p) s = p"

text \<open>\<open>k in value\<close> on strings: \<open>k\<close> occurs in \<open>value\<close> as a contiguous run.\<close>

fun contains :: "str \<Rightarrow> str \<Rightarrow> bool" where
  "contains k [] = (k = [])"
| "contains k (c # cs) = (startswith (c # cs) k \<or> contains k cs)"

text \<open>
  \<open>str.lower\<close> and \<open>str.isalnum\<close> read the Unicode character database of the Python
  runtime, which is not part of the repository: the functions below take them as the
  parameters \<open>lower\<close> and \<open>isalnum\<close>. On ASCII text they are the following two
  functions, which serve as the concrete instance wherever a model is evaluated.
\<close>

definition ascii_lower :: "str \<Rightarrow> str" where
  "ascii_lower s = map (\<lambda>c. if 65 \<le> c \<and> c \<le> 90 then c + 32 else c) s"

definition ascii_isalnum :: "nat \<Rightarrow> bool" where
  "ascii_isalnum c \<longleftrightarrow> (48 \<le> c \<and> c \<le> 57) \<or> (65 \<le> c \<and> c \<le> 90) \<or> (97 \<le> c \<and> c \<le> 122)"


section \<open>Keyword labelling: \<open>scripts/classifier.py\<close> and \<open>scripts/process_comments.py\<close>\<close>

definition NATURE_ALIGNED :: "str list" where
  "NATURE_ALIGNED = map u
     [''lightness'', ''clarity'', ''natural energy'', ''deep sleep'', ''satvic'', ''prana'',
      ''shuddhi'', ''tapas'', ''ahimsa'', ''mother earth'', ''seasonal eating'',
      ''living food'', ''returning to my roots'', ''new person'']"

definition NOT_NATURE_ALIGNED :: "str list" where
  "NOT_NATURE_ALIGNED = map u
     [''weight loss'', ''sugar levels'', ''kilograms'', ''science says otherwise'',
      ''protein deficiency'', ''too expensive'', ''office lunch'', ''society pressure'',
      ''cant live without tea'', ''can t live without tea'', ''too bland'']"

text \<open>The two locals \<open>has_aligned\<close> and \<open>has_not\<close>, as functions of the lowered text.\<close>

definition has_aligned :: "str \<Rightarrow> bool" where
  "has_aligned v = list_ex (\<lambda>k. contains k v) NATURE_ALIGNED"

definition has_not :: "str \<Rightarrow> bool" where
  "has_not v = list_ex (\<lambda>k. contains k v) NOT_NATURE_ALIGNED"

text \<open>The argument is \<open>None\<close> or a string; \<open>text or ""\<close> maps \<open>None\<close> to the empty string.\<close>

definition classify_nature_alignment :: "(str \<Rightarrow> str) \<Rightarrow> str option \<Rightarrow> int" where
  "classify_nature_alignment lower text =
     (let v = lower (case text of None \<Rightarrow> [] | Some t \<Rightarrow> t) in
      if has_aligned v \<and> \<not> has_not v then 1
      else if has_not v \<and> \<not> has_aligned v then 0
      else - 1)"

text \<open>
  The patterns of \<open>process_comments.py\<close> are literal texts, except the first, which
  is a literal between two word boundaries \<open>\b\<close>.
\<close>

datatype pattern = Lit str | Word str

definition POSITIVE_KEYWORDS :: "pattern list" where
  "POSITIVE_KEYWORDS = Word (u ''halka'') # map (\<lambda>s. Lit (u s))
     [''lightness'', ''clarity'', ''natural energy'', ''deep sleep'', ''satvic'', ''prana'',
      ''shuddhi'', ''tapas'', ''ahimsa'', ''mother earth'', ''seasonal eating'',
      ''living food'', ''returning to my roots'', ''i feel like a new person'']"

definition NEGATIVE_KEYWORDS :: "pattern list" where
  "NEGATIVE_KEYWORDS = map (\<lambda>s. Lit (u s))
     [''weight loss'', ''sugar'', ''kilograms'', ''protein deficiency'', ''too expensive'',
      ''family won'' @ [CHR 0x27] @ ''t allow'', ''office lunch'', ''society pressure'',
      ''i can'' @ [CHR 0x27] @ ''t live without tea'', ''too bland'', ''tasteless'', ''milk'',
      ''medicine'']"

text \<open>\<open>\w\<close> on \<open>str\<close> patterns: alphanumeric or the underscore.\<close>

definition is_word :: "(nat \<Rightarrow> bool) \<Rightarrow> nat option \<Rightarrow> bool" where
  "is_word isalnum c = (case c of None \<Rightarrow> False | Some x \<Rightarrow> isalnum x \<or> x = 95)"

text \<open>\<open>\b\<close> between two neighbouring positions; outside the text there is no word character.\<close>

definition boundary :: "(nat \<Rightarrow> bool) \<Rightarrow> nat option \<Rightarrow> nat option \<Rightarrow> bool" where
  "boundary isalnum a b \<longleftrightarrow> is_word isalnum a \<noteq> is_word isalnum b"

definition char_at :: "str \<Rightarrow> nat \<Rightarrow> nat option" where
  "char_at s i = (if i < length s then Some (s ! i) else None)"

text \<open>\<open>re.search\<close> of \<open>\bw\b\<close> in the text that follows the character \<open>prev\<close>.\<close>

fun search_word :: "(nat \<Rightarrow> bool) \<Rightarrow> str \<Rightarrow> nat option \<Rightarrow> str \<Rightarrow> bool" where
  "search_word isalnum w prev [] =
     (w = [] \<and> boundary isalnum prev None)"
| "search_word isalnum w prev (c # cs) =
     ((startswith (c # cs) w \<and>
       (if w = [] then boundary isalnum prev (Some c)
        else boundary isalnum prev (Some c) \<and>
             boundary isalnum (Some (last w)) (char_at (c # cs) (length w))))
      \<or> search_word isalnum w (Some c) cs)"

fun re_search :: "(nat \<Rightarrow> bool) \<Rightarrow> pattern \<Rightarrow> str \<Rightarrow> bool" where
  "re_search isalnum (Lit k) t = contains k t"
| "re_search isalnum (Word w) t = search_word isalnum w None t"

definition pos_hit :: "(nat \<Rightarrow> bool) \<Rightarrow> str \<Rightarrow> bool" where
  "pos_hit isalnum t = list_ex (\<lambda>p. re_search isalnum p t) POSITIVE_KEYWORDS"

definition neg_hit :: "(nat \<Rightarrow> bool) \<Rightarrow> str \<Rightarrow> bool" where
  "neg_hit isalnum t = list_ex (\<lambda>p. re_search isalnum p t) NEGATIVE_KEYWORDS"

text \<open>An argument that is not a \<open>str\<close> is \<open>None\<close> here.\<close>

definition keyword_label :: "(str \<Rightarrow> str) \<Rightarrow> (nat \<Rightarrow> bool) \<Rightarrow> str option \<Rightarrow> int" where
  "keyword_label lower isalnum text =
     (case text of
        None \<Rightarrow> - 1
      | Some s \<Rightarrow>
          if strip s = [] then - 1
          else
            let t = lower s; pos = pos_hit isalnum t; neg = neg_hit isalnum t in
            if pos \<and> \<not> neg then 1
            else if neg \<and> \<not> pos then 0
            else if pos \<and> neg then 1
            else - 1)"


section \<open>The scraper: \<open>scripts/scraper.py\<close>\<close>

subsection \<open>Data\<close>

record CommentRecord =
  video_title :: str
  comment_text :: str
  comment_date :: str
  like_count :: int
  username_hash :: str

text \<open>
  An entry of a JSON object that the scraper reads with a default, \<open>d.get(key, "")\<close>:
  the key is absent, or its value is \<open>null\<close>, or it is a value of the type that the API
  documents for it.
\<close>

datatype 'a entry = Absent | Null | Value 'a

text \<open>
  An element of a response's \<open>items\<close>, with the entries the scraper reads. The objects on
  the way to an entry are objects where they are present, and the values have the types
  of the API: strings, and an integer for \<open>likeCount\<close>.
  \<^item> Read with a default, and then passed to \<open>str\<close>: \<open>id\<close>, \<open>snippet.title\<close>, and under
    \<open>snippet.topLevelComment.snippet\<close> the entries \<open>textDisplay\<close>, \<open>publishedAt\<close> and
    \<open>authorDisplayName\<close>.
  \<^item> Read with \<open>d.get(key)\<close>, which gives \<open>None\<close> for an absent key and for \<open>null\<close> alike:
    \<open>contentDetails.videoId\<close>, \<open>contentDetails.relatedPlaylists.uploads\<close> and
    \<open>snippet.channelId\<close>. \<open>likeCount\<close> is read as \<open>d.get("likeCount", 0) or 0\<close>,
    which gives 0 for an absent key and for \<open>null\<close> alike.
\<close>

record item =
  item_id :: "str entry"
  videoId :: "str option"
  uploads :: "str option"
  channelId :: "str option"
  title :: "str entry"
  textDisplay :: "str entry"
  publishedAt :: "str entry"
  likeCount :: "int option"
  authorDisplayName :: "str entry"

text \<open>
  A response: \<open>response.get("items", [])\<close> and \<open>response.get("nextPageToken")\<close>, which is
  \<open>None\<close> for an absent key and for \<open>null\<close> alike.
\<close>

record response =
  items :: "item list"
  nextPageToken :: "str option"

text \<open>The requests the scraper builds, with the arguments that vary.\<close>

datatype request =
    PlaylistItemsList str int "str option"
  | ChannelsListById str
  | ChannelsListForHandle str
  | SearchList str
  | VideosList str
  | CommentThreadsList str int "str option"

text \<open>
  What \<open>request.execute()\<close> does: it returns a response, raises \<open>HttpError\<close> for a
  response with an error status, or raises another exception. The status of the
  response is what both \<open>exc.status_code\<close> and \<open>exc.resp.status\<close> give.
\<close>

datatype outcome = Success response | HttpFail int | OtherFail

text \<open>
  The exceptions: the \<open>ValueError\<close> of a \<open>raise\<close> statement of the repository, with its
  message; \<open>HttpError\<close> with its status; any other exception of the client library;
  \<open>UnicodeEncodeError\<close>, which \<open>str.encode\<close> raises and which is a subclass of
  \<open>ValueError\<close>; and the \<open>SystemExit\<close> of \<open>main\<close>, whose message names a channel and the
  exception that \<open>resolve_channel_id\<close> raised.
\<close>

datatype exn =
    ValueError str
  | HttpError int
  | OtherException
  | UnicodeEncodeError
  | SystemExit str exn

text \<open>An entry of \<open>channels.json\<close>, as \<open>_load_channels\<close> returns it.\<close>

record channel =
  name :: str
  channel_id :: str

text \<open>
  The effects, in the order they happen: the pacing sleep before a request
  (\<open>time.sleep(self._sleep_seconds)\<close>), the sleep before a retry
  (\<open>time.sleep(min(2 ** attempt, 30))\<close>), and the execution of a request. The last two
  constructors are effects of \<open>main.py\<close>: the export of the records of a channel, and
  \<open>_write_channels\<close>.
\<close>

datatype event =
    Pace rat
  | Backoff int
  | Execute request
  | Export str "CommentRecord list"
  | WriteChannels "channel list"

text \<open>
  The remote service is a state of type \<open>'w\<close> and a function that answers a request in
  a state. The scraper object holds that function and \<open>_sleep_seconds\<close>.
\<close>

record 'w scraper =
  youtube :: "'w \<Rightarrow> request \<Rightarrow> outcome \<times> 'w"
  sleep_seconds :: rat

record 'w state =
  world :: 'w
  trace :: "event list"

definition tell :: "event \<Rightarrow> 'w state \<Rightarrow> 'w state" where
  "tell e st = st\<lparr>trace := trace st @ [e]\<rparr>"

text \<open>Truth value of \<open>None\<close> or a string.\<close>

definition truthy :: "str option \<Rightarrow> bool" where
  "truthy t = (case t of None \<Rightarrow> False | Some s \<Rightarrow> s \<noteq> [])"

text \<open>
  \<open>value or ""\<close>, and \<open>str(value)\<close> for a value that is known not to be \<open>None\<close>.
\<close>

definition get_str :: "str option \<Rightarrow> str" where
  "get_str t = (case t of None \<Rightarrow> [] | Some s \<Rightarrow> s)"

text \<open>
  \<open>str(d.get(key, ""))\<close> for an entry whose value is a string: the empty string for an
  absent key, the text \<open>None\<close> for \<open>null\<close>.
\<close>

definition str_of :: "str entry \<Rightarrow> str" where
  "str_of e = (case e of Absent \<Rightarrow> [] | Null \<Rightarrow> u ''None'' | Value s \<Rightarrow> s)"

text \<open>How a loop body ends: with \<open>return\<close>, or by reaching the end of the body.\<close>

datatype 'a flow = Returned 'a | Fallthrough 'a

subsection \<open>\<open>_execute_with_retry\<close>\<close>

definition pace :: "'w scraper \<Rightarrow> 'w state \<Rightarrow> 'w state" where
  "pace self st = (if sleep_seconds self > 0 then tell (Pace (sleep_seconds self)) st else st)"

definition execute :: "'w scraper \<Rightarrow> request \<Rightarrow> 'w state \<Rightarrow> outcome \<times> 'w state" where
  "execute self req st =
     (case youtube self (world st) req of
        (out, w) \<Rightarrow> (out, tell (Execute req) (st\<lparr>world := w\<rparr>)))"

function retry_loop ::
  "'w scraper \<Rightarrow> request \<Rightarrow> int \<Rightarrow> nat \<Rightarrow> 'w state \<Rightarrow> (exn + response) \<times> 'w state" where
  "retry_loop self req max_retries attempt st =
     (case execute self req (pace self st) of
        (Success r, st') \<Rightarrow> (Inr r, st')
      | (OtherFail, st') \<Rightarrow> (Inl OtherException, st')
      | (HttpFail status, st') \<Rightarrow>
          if int (attempt + 1) > max_retries then (Inl (HttpError status), st')
          else if status \<in> {429, 500, 503} then
            retry_loop self req max_retries (attempt + 1)
              (tell (Backoff (min (2 ^ (attempt + 1)) 30)) st')
          else (Inl (HttpError status), st'))"
  by pat_completeness auto
termination
  by (relation "measure (\<lambda>(self, req, max_retries, attempt, st). nat (max_retries - int attempt))")
    auto

definition execute_with_retry ::
  "'w scraper \<Rightarrow> request \<Rightarrow> 'w state \<Rightarrow> (exn + response) \<times> 'w state" where
  "execute_with_retry self req st = retry_loop self req 5 0 st"

subsection \<open>\<open>fetch_video_ids_from_channel\<close>\<close>

definition get_uploads_playlist_id ::
  "'w scraper \<Rightarrow> str \<Rightarrow> 'w state \<Rightarrow> (exn + str) \<times> 'w state" where
  "get_uploads_playlist_id self cid st =
     (case execute_with_retry self (ChannelsListById cid) st of
        (Inl e, st') \<Rightarrow> (Inl e, st')
      | (Inr response, st') \<Rightarrow>
          (case items response of
             [] \<Rightarrow> (Inl (ValueError (u ''Channel not found'')), st')
           | it # _ \<Rightarrow>
               if \<not> truthy (uploads it)
               then (Inl (ValueError (u ''Uploads playlist not available for channel'')), st')
               else (Inr (get_str (uploads it)), st')))"

text \<open>The \<open>for item in response.get("items", [])\<close> loop of the enumerator.\<close>

fun collect_video_ids :: "int option \<Rightarrow> item list \<Rightarrow> str list \<Rightarrow> str list flow" where
  "collect_video_ids max_videos [] video_ids = Fallthrough video_ids"
| "collect_video_ids max_videos (it # its) video_ids =
     (if truthy (videoId it) then
        let video_ids' = video_ids @ [get_str (videoId it)] in
        if (case max_videos of None \<Rightarrow> False | Some m \<Rightarrow> int (length video_ids') \<ge> m)
        then Returned video_ids'
        else collect_video_ids max_videos its video_ids'
      else collect_video_ids max_videos its video_ids)"

text \<open>
  The \<open>while True\<close> loop of the enumerator. It may run forever (a service that keeps
  answering with a continuation token and no item), so its result is an option.
\<close>

partial_function (option) video_ids_loop ::
  "'w scraper \<Rightarrow> str \<Rightarrow> int option \<Rightarrow> str list \<Rightarrow> str option \<Rightarrow> 'w state
     \<Rightarrow> ((exn + str list) \<times> 'w state) option" where
  "video_ids_loop self uploads_playlist_id max_videos video_ids page_token st =
     (case execute_with_retry self (PlaylistItemsList uploads_playlist_id 50 page_token) st of
        (Inl e, st') \<Rightarrow> Some (Inl e, st')
      | (Inr response, st') \<Rightarrow>
          (case collect_video_ids max_videos (items response) video_ids of
             Returned ids \<Rightarrow> Some (Inr ids, st')
           | Fallthrough ids \<Rightarrow>
               if \<not> truthy (nextPageToken response) then Some (Inr ids, st')
               else video_ids_loop self uploads_playlist_id max_videos ids
                      (nextPageToken response) st'))"

definition fetch_video_ids_from_channel ::
  "'w scraper \<Rightarrow> str \<Rightarrow> int option \<Rightarrow> 'w state \<Rightarrow> ((exn + str list) \<times> 'w state) option" where
  "fetch_video_ids_from_channel self cid max_videos st =
     (case get_uploads_playlist_id self cid st of
        (Inl e, st') \<Rightarrow> Some (Inl e, st')
      | (Inr uploads_playlist_id, st') \<Rightarrow>
          video_ids_loop self uploads_playlist_id max_videos [] None st')"


subsection \<open>\<open>fetch_comments_for_videos\<close>\<close>

definition get_video_title ::
  "'w scraper \<Rightarrow> str \<Rightarrow> 'w state \<Rightarrow> (exn + str) \<times> 'w state" where
  "get_video_title self video_id st =
     (case execute_with_retry self (VideosList video_id) st of
        (Inl e, st') \<Rightarrow> (Inl e, st')
      | (Inr response, st') \<Rightarrow>
          (case items response of
             [] \<Rightarrow> (Inr [], st')
           | it # _ \<Rightarrow> (Inr (str_of (title it)), st')))"

text \<open>
  \<open>author.encode("utf-8")\<close> raises \<open>UnicodeEncodeError\<close> when the text holds a surrogate
  code point (U+D800 to U+DFFF), which a JSON text can bring into a string; otherwise it
  gives the bytes of the text.
\<close>

definition surrogate :: "nat \<Rightarrow> bool" where
  "surrogate c \<longleftrightarrow> 0xD800 \<le> c \<and> c \<le> 0xDFFF"

definition encodable :: "str \<Rightarrow> bool" where
  "encodable s \<longleftrightarrow> list_all (\<lambda>c. \<not> surrogate c) s"

text \<open>
  The record of one comment, or the exception of the encoding. \<open>sha256_hex\<close> stands for
  \<open>hashlib.sha256(author.encode("utf-8")).hexdigest()\<close> as a function of an \<open>author\<close>
  that can be encoded; \<open>hashlib\<close> is not part of the repository.
\<close>

definition make_record :: "(str \<Rightarrow> str) \<Rightarrow> str \<Rightarrow> item \<Rightarrow> exn + CommentRecord" where
  "make_record sha256_hex vtitle it =
     (let text = str_of (textDisplay it);
          published_at = str_of (publishedAt it);
          like_count = (case likeCount it of None \<Rightarrow> 0 | Some n \<Rightarrow> n);
          author = str_of (authorDisplayName it)
      in if encodable author
         then Inr \<lparr>video_title = vtitle, comment_text = text, comment_date = published_at,
                   like_count = like_count, username_hash = sha256_hex author\<rparr>
         else Inl UnicodeEncodeError)"

text \<open>
  The \<open>for item in items\<close> loop of \<open>_fetch_top_level_comments\<close>; the records yielded
  so far are \<open>acc\<close>. An exception ends the generator.
\<close>

fun yield_items ::
  "(str \<Rightarrow> str) \<Rightarrow> str \<Rightarrow> int \<Rightarrow> item list \<Rightarrow> int \<Rightarrow> CommentRecord list
     \<Rightarrow> exn + (CommentRecord list \<times> int) flow" where
  "yield_items sha256_hex vtitle limit [] fetched acc = Inr (Fallthrough (acc, fetched))"
| "yield_items sha256_hex vtitle limit (it # its) fetched acc =
     (case make_record sha256_hex vtitle it of
        Inl e \<Rightarrow> Inl e
      | Inr r \<Rightarrow>
          if fetched + 1 \<ge> limit then Inr (Returned (acc @ [r], fetched + 1))
          else yield_items sha256_hex vtitle limit its (fetched + 1) (acc @ [r]))"

text \<open>
  The \<open>while fetched < limit\<close> loop. The result is what \<open>list(...)\<close> of the generator
  gives its caller: the records yielded when the generator returns, the exception when
  it raises. The loop may run forever (pages with a continuation token and no item).
\<close>

partial_function (option) comments_loop ::
  "'w scraper \<Rightarrow> (str \<Rightarrow> str) \<Rightarrow> str \<Rightarrow> str \<Rightarrow> int \<Rightarrow> str option \<Rightarrow> int
     \<Rightarrow> CommentRecord list \<Rightarrow> 'w state
     \<Rightarrow> ((exn + CommentRecord list) \<times> 'w state) option" where
  "comments_loop self sha256_hex video_id vtitle limit page_token fetched acc st =
     (if fetched < limit then
        (case execute_with_retry self
                (CommentThreadsList video_id (min 100 (limit - fetched)) page_token) st of
           (Inl (HttpError status), st') \<Rightarrow>
             if status \<in> {403, 404} then Some (Inr acc, st')
             else Some (Inl (HttpError status), st')
         | (Inl e, st') \<Rightarrow> Some (Inl e, st')
         | (Inr response, st') \<Rightarrow>
             (case yield_items sha256_hex vtitle limit (items response) fetched acc of
                Inl e \<Rightarrow> Some (Inl e, st')
              | Inr (Returned (acc', fetched')) \<Rightarrow> Some (Inr acc', st')
              | Inr (Fallthrough (acc', fetched')) \<Rightarrow>
                  if \<not> truthy (nextPageToken response) then Some (Inr acc', st')
                  else comments_loop self sha256_hex video_id vtitle limit
                         (nextPageToken response) fetched' acc' st'))
      else Some (Inr acc, st))"

definition fetch_top_level_comments ::
  "'w scraper \<Rightarrow> (str \<Rightarrow> str) \<Rightarrow> str \<Rightarrow> str \<Rightarrow> int \<Rightarrow> 'w state
     \<Rightarrow> ((exn + CommentRecord list) \<times> 'w state) option" where
  "fetch_top_level_comments self sha256_hex video_id vtitle limit st =
     comments_loop self sha256_hex video_id vtitle limit None 0 [] st"

text \<open>The \<open>for video_id in video_ids\<close> loop.\<close>

fun videos_loop ::
  "'w scraper \<Rightarrow> (str \<Rightarrow> str) \<Rightarrow> int \<Rightarrow> str list \<Rightarrow> CommentRecord list \<Rightarrow> 'w state
     \<Rightarrow> ((exn + CommentRecord list) \<times> 'w state) option" where
  "videos_loop self sha256_hex limit [] all_records st = Some (Inr all_records, st)"
| "videos_loop self sha256_hex limit (video_id # rest) all_records st =
     (case get_video_title self video_id st of
        (Inl e, st1) \<Rightarrow> Some (Inl e, st1)
      | (Inr vtitle, st1) \<Rightarrow>
          (case fetch_top_level_comments self sha256_hex video_id vtitle limit st1 of
             None \<Rightarrow> None
           | Some (Inl e, st2) \<Rightarrow> Some (Inl e, st2)
           | Some (Inr records, st2) \<Rightarrow>
               videos_loop self sha256_hex limit rest (all_records @ records) st2))"

definition fetch_comments_for_videos ::
  "'w scraper \<Rightarrow> (str \<Rightarrow> str) \<Rightarrow> str list \<Rightarrow> int \<Rightarrow> 'w state
     \<Rightarrow> ((exn + CommentRecord list) \<times> 'w state) option" where
  "fetch_comments_for_videos self sha256_hex video_ids per_video_limit st =
     (if per_video_limit < 100 \<or> per_video_limit > 500
      then Some (Inl (ValueError (u ''per_video_limit must be between 100 and 500'')), st)
      else videos_loop self sha256_hex per_video_limit video_ids [] st)"

subsection \<open>\<open>resolve_channel_id\<close>\<close>

text \<open>
  One character of a pattern compiled with \<open>(?i)\<close> against one character of the
  text: a letter matches in both cases, and \<open>s\<close>, \<open>k\<close> and \<open>i\<close> also match U+017F,
  U+212A, and U+0130 and U+0131.
\<close>

definition imatch :: "nat \<Rightarrow> nat \<Rightarrow> bool" where
  "imatch p c \<longleftrightarrow>
     c = p \<or> (97 \<le> p \<and> p \<le> 122 \<and> c + 32 = p) \<or> (65 \<le> p \<and> p \<le> 90 \<and> c = p + 32) \<or>
     ((p = 115 \<or> p = 83) \<and> c = 383) \<or> ((p = 107 \<or> p = 75) \<and> c = 8490) \<or>
     ((p = 105 \<or> p = 73) \<and> (c = 304 \<or> c = 305))"

definition imatch_prefix :: "str \<Rightarrow> str \<Rightarrow> bool" where
  "imatch_prefix p s \<longleftrightarrow> length p \<le> length s \<and> list_all2 imatch p (take (length p) s)"

text \<open>The class \<open>[0-9A-Za-z_-]\<close> under \<open>(?i)\<close>.\<close>

definition id_char :: "nat \<Rightarrow> bool" where
  "id_char c \<longleftrightarrow>
     (48 \<le> c \<and> c \<le> 57) \<or> (65 \<le> c \<and> c \<le> 90) \<or> (97 \<le> c \<and> c \<le> 122) \<or> c = 95 \<or> c = 45 \<or>
     c = 304 \<or> c = 305 \<or> c = 383 \<or> c = 8490"

text \<open>
  A match of \<open>(?i)(?:youtube\.com/channel/)(UC[0-9A-Za-z_-]{20,})\<close> at the start of
  \<open>s\<close>; the result is group 1.
\<close>

definition match_channel_url :: "str \<Rightarrow> str option" where
  "match_channel_url s =
     (if imatch_prefix (u ''youtube.com/channel/UC'') s
      then let uc = take 2 (drop 20 s); run = takeWhile id_char (drop 22 s) in
           if length run \<ge> 20 then Some (uc @ run) else None
      else None)"

text \<open>The class \<open>[^/?#]\<close>.\<close>

definition handle_char :: "nat \<Rightarrow> bool" where
  "handle_char c \<longleftrightarrow> c \<noteq> 47 \<and> c \<noteq> 63 \<and> c \<noteq> 35"

text \<open>A match of \<open>(?i)(?:youtube\.com/)(@[^/?#]+)\<close> at the start of \<open>s\<close>.\<close>

definition match_handle_url :: "str \<Rightarrow> str option" where
  "match_handle_url s =
     (if imatch_prefix (u ''youtube.com/@'') s
      then let run = takeWhile handle_char (drop 13 s) in
           if length run \<ge> 1 then Some (64 # run) else None
      else None)"

text \<open>\<open>re.search\<close>: the match at the leftmost position that has one.\<close>

fun re_search_group :: "(str \<Rightarrow> str option) \<Rightarrow> str \<Rightarrow> str option" where
  "re_search_group m [] = m []"
| "re_search_group m (c # cs) =
     (case m (c # cs) of Some g \<Rightarrow> Some g | None \<Rightarrow> re_search_group m cs)"

definition try_extract_channel_id :: "str \<Rightarrow> str option" where
  "try_extract_channel_id raw =
     (case re_search_group match_channel_url raw of
        Some g \<Rightarrow> Some g
      | None \<Rightarrow> if startswith raw (u ''UC'') \<and> length raw \<ge> 20 then Some raw else None)"

definition try_extract_handle :: "str \<Rightarrow> str option" where
  "try_extract_handle raw =
     (case re_search_group match_handle_url raw of
        Some g \<Rightarrow> Some g
      | None \<Rightarrow> if startswith raw (u ''@'') \<and> length raw > 1 then Some raw else None)"

text \<open>\<open>str(x).strip() or None\<close>.\<close>

definition strip_or_None :: "str \<Rightarrow> str option" where
  "strip_or_None s = (if strip s = [] then None else Some (strip s))"

definition resolve_channel_id_from_handle ::
  "'w scraper \<Rightarrow> str \<Rightarrow> 'w state \<Rightarrow> (exn + str option) \<times> 'w state" where
  "resolve_channel_id_from_handle self handle st =
     (let h = strip (dropWhile (\<lambda>c. c = 64) handle) in
      if h = [] then (Inr None, st)
      else
        (case execute_with_retry self (ChannelsListForHandle h) st of
           (Inl e, st') \<Rightarrow> (Inl e, st')
         | (Inr response, st') \<Rightarrow>
             (case items response of
                [] \<Rightarrow> (Inr None, st')
              | it # _ \<Rightarrow> (Inr (strip_or_None (str_of (item_id it))), st'))))"

definition resolve_channel_id_from_search ::
  "'w scraper \<Rightarrow> str \<Rightarrow> 'w state \<Rightarrow> (exn + str option) \<times> 'w state" where
  "resolve_channel_id_from_search self query st =
     (case execute_with_retry self (SearchList query) st of
        (Inl e, st') \<Rightarrow> (Inl e, st')
      | (Inr response, st') \<Rightarrow>
          (case items response of
             [] \<Rightarrow> (Inr None, st')
           | it # _ \<Rightarrow>
               if truthy (channelId it)
               then (Inr (strip_or_None (get_str (channelId it))), st')
               else (Inr None, st')))"

text \<open>The last two strategies of \<open>resolve_channel_id\<close>: the search, after the handle.\<close>

definition resolve_by_search ::
  "'w scraper \<Rightarrow> str \<Rightarrow> 'w state \<Rightarrow> (exn + str) \<times> 'w state" where
  "resolve_by_search self raw st =
     (case resolve_channel_id_from_search self raw st of
        (Inl e, st') \<Rightarrow> (Inl e, st')
      | (Inr cid, st') \<Rightarrow>
          if truthy cid then (Inr (get_str cid), st')
          else (Inl (ValueError (u ''Unable to resolve channel_id'')), st'))"

definition resolve_channel_id ::
  "'w scraper \<Rightarrow> str option \<Rightarrow> 'w state \<Rightarrow> (exn + str) \<times> 'w state" where
  "resolve_channel_id self v st =
     (let raw = strip (get_str v) in
      if raw = [] then (Inl (ValueError (u ''Missing channel identifier'')), st)
      else if truthy (try_extract_channel_id raw)
      then (Inr (get_str (try_extract_channel_id raw)), st)
      else if truthy (try_extract_handle raw) then
        (case resolve_channel_id_from_handle self (get_str (try_extract_handle raw)) st of
           (Inl e, st') \<Rightarrow> (Inl e, st')
         | (Inr cid, st') \<Rightarrow>
             if truthy cid then (Inr (get_str cid), st')
             else resolve_by_search self raw st')
      else resolve_by_search self raw st)"


section \<open>Cleaning: \<open>scripts/cleaning.py\<close>\<close>

text \<open>
  \<open>_URL_RE\<close> is \<open>(https?://\S+|www\.\S+)\<close> with \<open>re.IGNORECASE\<close>. A match starts where
  one of the two literal prefixes is followed by a character that is not whitespace,
  and, the prefixes having no whitespace, it is the whole run of such characters from
  there. \<open>url_at\<close> says that a match starts at the head of the text.
\<close>

definition nonspace_at :: "str \<Rightarrow> nat \<Rightarrow> bool" where
  "nonspace_at s i = (case char_at s i of None \<Rightarrow> False | Some c \<Rightarrow> \<not> isspace c)"

definition url_at :: "str \<Rightarrow> bool" where
  "url_at s \<longleftrightarrow>
     (imatch_prefix (u ''http'') s \<and>
        ((imatch_prefix (u ''s://'') (drop 4 s) \<and> nonspace_at s 8) \<or>
         (imatch_prefix (u ''://'') (drop 4 s) \<and> nonspace_at s 7))) \<or>
     (imatch_prefix (u ''www.'') s \<and> nonspace_at s 4)"

text \<open>
  \<open>_URL_RE.sub(" ", value)\<close>, from left to right; \<open>in_match\<close> says that the characters
  read belong to a match that has begun and has been replaced.
\<close>

fun url_sub :: "bool \<Rightarrow> str \<Rightarrow> str" where
  "url_sub in_match [] = []"
| "url_sub True (c # cs) = (if isspace c then c # url_sub False cs else url_sub True cs)"
| "url_sub False (c # cs) =
     (if url_at (c # cs) then 32 # url_sub True cs else c # url_sub False cs)"

text \<open>The character class of \<open>_EMOJI_RE\<close>, range by range.\<close>

definition emoji :: "nat \<Rightarrow> bool" where
  "emoji c \<longleftrightarrow>
     (0x1F1E0 \<le> c \<and> c \<le> 0x1F1FF) \<or> (0x1F300 \<le> c \<and> c \<le> 0x1F5FF) \<or>
     (0x1F600 \<le> c \<and> c \<le> 0x1F64F) \<or> (0x1F680 \<le> c \<and> c \<le> 0x1F6FF) \<or>
     (0x1F700 \<le> c \<and> c \<le> 0x1F77F) \<or> (0x1F780 \<le> c \<and> c \<le> 0x1F7FF) \<or>
     (0x1F800 \<le> c \<and> c \<le> 0x1F8FF) \<or> (0x1F900 \<le> c \<and> c \<le> 0x1F9FF) \<or>
     (0x1FA00 \<le> c \<and> c \<le> 0x1FA6F) \<or> (0x1FA70 \<le> c \<and> c \<le> 0x1FAFF) \<or>
     (0x2702 \<le> c \<and> c \<le> 0x27B0) \<or> (0x24C2 \<le> c \<and> c \<le> 0x1F251)"

text \<open>
  \<open>re.sub("[...]+", " ", value)\<close> for a character class \<open>P\<close>: every maximal run of
  characters of the class becomes one space; \<open>in_run\<close> says that the character before
  was of the class.
\<close>

fun runs_sub :: "(nat \<Rightarrow> bool) \<Rightarrow> bool \<Rightarrow> str \<Rightarrow> str" where
  "runs_sub P in_run [] = []"
| "runs_sub P in_run (c # cs) =
     (if P c then (if in_run then runs_sub P True cs else 32 # runs_sub P True cs)
      else c # runs_sub P False cs)"

text \<open>The characters that \<open>[^0-9a-z\u0900-\u097f\s]\<close> does not match.\<close>

definition kept :: "nat \<Rightarrow> bool" where
  "kept c \<longleftrightarrow>
     (48 \<le> c \<and> c \<le> 57) \<or> (97 \<le> c \<and> c \<le> 122) \<or> (0x900 \<le> c \<and> c \<le> 0x97F) \<or> isspace c"

text \<open>\<open>clean_text\<close>; \<open>str(text)\<close> is the text itself.\<close>

definition clean_text :: "(str \<Rightarrow> str) \<Rightarrow> str option \<Rightarrow> str" where
  "clean_text lower text =
     (case text of
        None \<Rightarrow> []
      | Some v0 \<Rightarrow>
          let v1 = url_sub False v0;
              v2 = runs_sub emoji False v1;
              v3 = lower v2;
              v4 = map (\<lambda>c. if kept c then c else 32) v3
          in strip (runs_sub isspace False v4))"

text \<open>
  The shape of a cleaned text: its characters are ASCII digits, lowercase ASCII letters,
  Devanagari characters (U+0900 to U+097F) or the space; no two whitespace characters
  are neighbours; the text does not begin or end with whitespace.
\<close>

definition clean_char :: "nat \<Rightarrow> bool" where
  "clean_char c \<longleftrightarrow>
     (48 \<le> c \<and> c \<le> 57) \<or> (97 \<le> c \<and> c \<le> 122) \<or> (0x900 \<le> c \<and> c \<le> 0x97F) \<or> c = 32"

fun adjacent_spaces :: "str \<Rightarrow> bool" where
  "adjacent_spaces (a # b # cs) = ((isspace a \<and> isspace b) \<or> adjacent_spaces (b # cs))"
| "adjacent_spaces cs = False"

definition stripped :: "str \<Rightarrow> bool" where
  "stripped s \<longleftrightarrow> s = [] \<or> (\<not> isspace (hd s) \<and> \<not> isspace (last s))"

definition noisy_comment :: str where
  "noisy_comment =
     u ''Visit  HTTPS://Example.com/a?b=1 NOW!!  it is www.x.y ok www. http:// ''
       @ [128512, 128513, 0x915, 0x916, 160, 65] @ u '' End ''"


section \<open>The batch run: \<open>main.py\<close>\<close>








section \<open>A simulated service\<close>

text \<open>
  A service that answers the requests it receives with a given sequence of outcomes,
  one per request, whatever the request is. When the sequence is used up the service is
  gone: a request fails with an exception that is not an \<open>HttpError\<close>.
\<close>

definition scripted :: "outcome list \<Rightarrow> request \<Rightarrow> outcome \<times> outcome list" where
  "scripted w req = (case w of [] \<Rightarrow> (OtherFail, []) | out # rest \<Rightarrow> (out, rest))"

definition simulated :: "rat \<Rightarrow> outcome list scraper" where
  "simulated p = \<lparr>youtube = scripted, sleep_seconds = p\<rparr>"

definition start :: "outcome list \<Rightarrow> outcome list state" where
  "start w = \<lparr>world = w, trace = []\<rparr>"


text \<open>A response with the given items and continuation token.\<close>

definition page :: "item list \<Rightarrow> str option \<Rightarrow> outcome" where
  "page its tok = Success \<lparr>items = its, nextPageToken = tok\<rparr>"

definition no_item :: item where
  "no_item = \<lparr>item_id = Absent, videoId = None, uploads = None, channelId = None,
     title = Absent, textDisplay = Absent, publishedAt = Absent, likeCount = None,
     authorDisplayName = Absent\<rparr>"


section \<open>Vocabulary for the traces of a simulated run\<close>

text \<open>The pacing sleep before a request: present when \<open>_sleep_seconds\<close> is positive.\<close>

definition pace_ev :: "rat \<Rightarrow> event list" where
  "pace_ev p = (if p > 0 then [Pace p] else [])"

text \<open>The statuses that \<open>_execute_with_retry\<close> retries.\<close>

definition transient :: "int \<Rightarrow> bool" where
  "transient s \<longleftrightarrow> s = 429 \<or> s = 500 \<or> s = 503"

text \<open>
  The events of an attempt that fails with a retried status, when it is the \<open>i\<close>-th
  attempt of its request: the pacing sleep, the execution, and the wait before the retry.
\<close>

definition failed_attempt :: "rat \<Rightarrow> request \<Rightarrow> nat \<Rightarrow> event list" where
  "failed_attempt p req i = pace_ev p @ [Execute req, Backoff (min (2 ^ i) 30)]"

text \<open>The events of a sequence of requests that are each executed once.\<close>

definition paced :: "rat \<Rightarrow> request list \<Rightarrow> event list" where
  "paced p reqs = concat (map (\<lambda>r. pace_ev p @ [Execute r]) reqs)"

text \<open>
  A sequence of comment pages, each a list of items and a continuation token, as the
  outcomes of as many requests; the items of all the pages.
\<close>

definition pages :: "(item list \<times> str option) list \<Rightarrow> outcome list" where
  "pages pgs = map (\<lambda>(its, nxt). page its nxt) pgs"

definition all_items :: "(item list \<times> str option) list \<Rightarrow> item list" where
  "all_items pgs = concat (map fst pgs)"

text \<open>
  The page requests that the protocol of the comment fetcher prescribes for a sequence
  of pages: each asks for \<open>min(100, limit - fetched)\<close> items, where \<open>fetched\<close> counts the
  items of the pages before, and passes the token of the page before. \<open>next_request\<close> is
  the request that follows the last page.
\<close>

fun page_requests ::
  "str \<Rightarrow> int \<Rightarrow> str option \<Rightarrow> int \<Rightarrow> (item list \<times> str option) list \<Rightarrow> request list" where
  "page_requests video_id limit tok fetched [] = []"
| "page_requests video_id limit tok fetched ((its, nxt) # pgs) =
     CommentThreadsList video_id (min 100 (limit - fetched)) tok
       # page_requests video_id limit nxt (fetched + int (length its)) pgs"

fun next_request ::
  "str \<Rightarrow> int \<Rightarrow> str option \<Rightarrow> int \<Rightarrow> (item list \<times> str option) list \<Rightarrow> request" where
  "next_request video_id limit tok fetched [] =
     CommentThreadsList video_id (min 100 (limit - fetched)) tok"
| "next_request video_id limit tok fetched ((its, nxt) # pgs) =
     next_request video_id limit nxt (fetched + int (length its)) pgs"


section \<open>Sample inputs\<close>

text \<open>
  The shapes of the two kinds of token: a whole string that \<open>UC[0-9A-Za-z_-]{20,}\<close>
  matches, and one that \<open>@[^/?#]+\<close> matches. Two inputs that hold a token of each kind.
\<close>

definition id_shaped :: "str \<Rightarrow> bool" where
  "id_shaped s \<longleftrightarrow> imatch_prefix (u ''UC'') s \<and> length s \<ge> 22 \<and> list_all id_char (drop 2 s)"

definition handle_shaped :: "str \<Rightarrow> bool" where
  "handle_shaped s \<longleftrightarrow> startswith s (u ''@'') \<and> length s > 1 \<and> list_all handle_char (drop 1 s)"

definition both_url :: str where
  "both_url = u ''youtube.com/@natureliving youtube.com/channel/UCabcdefghijklmnopqrst''"

definition both_tokens :: str where
  "both_tokens = u ''@natureliving UCabcdefghijklmnopqrst''"

text \<open>
  The uploads collection of a channel as the service pages it: the answer to the lookup
  of the collection, then the video identifiers 50 to a page, every page but the last
  with a continuation token; and the \<open>n\<close> first page requests for that collection.
\<close>

definition video_item :: "str \<Rightarrow> item" where
  "video_item v = no_item\<lparr>videoId := Some v\<rparr>"

definition uploads_found :: "str \<Rightarrow> outcome" where
  "uploads_found pl = page [no_item\<lparr>uploads := Some pl\<rparr>] None"

function playlist_pages :: "str list \<Rightarrow> outcome list" where
  "playlist_pages vids =
     (if length vids \<le> 50 then [page (map video_item vids) None]
      else page (map video_item (take 50 vids)) (Some (u ''next''))
             # playlist_pages (drop 50 vids))"
  by pat_completeness auto
termination
  by (relation "measure length") auto

definition playlist_requests :: "str \<Rightarrow> str option \<Rightarrow> nat \<Rightarrow> request list" where
  "playlist_requests pl tok n =
     (if n = 0 then []
      else PlaylistItemsList pl 50 tok # replicate (n - 1) (PlaylistItemsList pl 50 (Some (u ''next''))))"

text \<open>
  The shape of \<open>hexdigest()\<close> of SHA-256: 64 characters, each a digit or a letter from
  \<open>a\<close> to \<open>f\<close>.
\<close>

definition hex_digit :: "nat \<Rightarrow> bool" where
  "hex_digit c \<longleftrightarrow> (48 \<le> c \<and> c \<le> 57) \<or> (97 \<le> c \<and> c \<le> 102)"

definition digest_shaped :: "str \<Rightarrow> bool" where
  "digest_shaped s \<longleftrightarrow> length s = 64 \<and> list_all hex_digit s"

text \<open>
  The exceptions that can end the fetching of comments: those of the execution of a
  request, and that of the encoding of an author.
\<close>

fun fetch_exn :: "exn \<Rightarrow> bool" where
  "fetch_exn (HttpError s) = True"
| "fetch_exn OtherException = True"
| "fetch_exn UnicodeEncodeError = True"
| "fetch_exn _ = False"

text \<open>
  The record that the mapping of a comment prescribes for an item: the title of the
  video, the text and the publication time as \<open>str\<close> gives them, the like count with 0
  for a missing one, and the digest of the author. The items whose author can be
  encoded.
\<close>

definition record_of :: "(str \<Rightarrow> str) \<Rightarrow> str \<Rightarrow> item \<Rightarrow> CommentRecord" where
  "record_of sha256_hex vtitle it =
     \<lparr>video_title = vtitle,
      comment_text = (case textDisplay it of Absent \<Rightarrow> [] | Null \<Rightarrow> u ''None'' | Value s \<Rightarrow> s),
      comment_date = (case publishedAt it of Absent \<Rightarrow> [] | Null \<Rightarrow> u ''None'' | Value s \<Rightarrow> s),
      like_count = (case likeCount it of None \<Rightarrow> 0 | Some n \<Rightarrow> n),
      username_hash =
        sha256_hex (case authorDisplayName it of Absent \<Rightarrow> [] | Null \<Rightarrow> u ''None'' | Value s \<Rightarrow> s)\<rparr>"

definition encodable_authors :: "item list \<Rightarrow> bool" where
  "encodable_authors its = list_all (\<lambda>it. encodable (str_of (authorDisplayName it))) its"

text \<open>A comment item with an author and a text, and a stand-in for the digest.\<close>

definition comment :: "str \<Rightarrow> str \<Rightarrow> item" where
  "comment author txt = no_item\<lparr>textDisplay := Value txt, authorDisplayName := Value author\<rparr>"

definition demo_digest :: "str \<Rightarrow> str" where
  "demo_digest author = u ''#'' @ author"








section \<open>Properties of the keyword labelling\<close>

lemmas keyword_defs =
  has_aligned_def has_not_def pos_hit_def neg_hit_def NATURE_ALIGNED_def
  NOT_NATURE_ALIGNED_def POSITIVE_KEYWORDS_def NEGATIVE_KEYWORDS_def u_def ascii_lower_def
  startswith_def strip_def lstrip_def rstrip_def isspace_def

lemma tie_text_hits:
  "has_aligned (ascii_lower (u ''prana weight loss''))"
  "has_not (ascii_lower (u ''prana weight loss''))"
  "strip (u ''prana weight loss'') \<noteq> []"
  "pos_hit ascii_isalnum (ascii_lower (u ''prana weight loss''))"
  "neg_hit ascii_isalnum (ascii_lower (u ''prana weight loss''))"
  by (simp_all add: keyword_defs)

text \<open>
  Claim C2, as the code has it. A text with a hit in both keyword lists of
  \<open>classifier.py\<close> gets the label \<open>-1\<close> from \<open>classify_nature_alignment\<close>: the
  label of a text with no hit at all, which the analysis counts as unknown, and not the
  label \<open>0\<close> of a text that is not aligned. A non-blank text with a hit in both
  pattern lists of \<open>process_comments.py\<close> gets the label \<open>1\<close> (aligned) from
  \<open>keyword_label\<close>. So the two functions do resolve the tie differently.
\<close>

theorem tie_resolution:
  "(has_aligned (lower t) \<and> has_not (lower t) \<longrightarrow>
      classify_nature_alignment lower (Some t) = - 1) \<and>
   (strip t \<noteq> [] \<and> pos_hit isalnum (lower t) \<and> neg_hit isalnum (lower t) \<longrightarrow>
      keyword_label lower isalnum (Some t) = 1)"
  by (simp add: classify_nature_alignment_def keyword_label_def)

theorem tie_resolution_witness:
  "has_aligned (ascii_lower (u ''prana weight loss'')) \<and>
   has_not (ascii_lower (u ''prana weight loss'')) \<and>
   classify_nature_alignment ascii_lower (Some (u ''prana weight loss'')) = - 1 \<and>
   strip (u ''prana weight loss'') \<noteq> [] \<and>
   pos_hit ascii_isalnum (ascii_lower (u ''prana weight loss'')) \<and>
   neg_hit ascii_isalnum (ascii_lower (u ''prana weight loss'')) \<and>
   keyword_label ascii_lower ascii_isalnum (Some (u ''prana weight loss'')) = 1"
  using tie_resolution [of ascii_lower "u ''prana weight loss''" ascii_isalnum] tie_text_hits
  by blast

text \<open>
  Claim C2 as stated fails: the text \<open>prana weight loss\<close> has a hit in both lists of
  the classifier, and its label is not \<open>0\<close> (not aligned).
\<close>

theorem classifier_tie_counterexample:
  "has_aligned (ascii_lower (u ''prana weight loss'')) \<and>
   has_not (ascii_lower (u ''prana weight loss'')) \<and>
   classify_nature_alignment ascii_lower (Some (u ''prana weight loss'')) \<noteq> 0"
  by (simp add: tie_text_hits classify_nature_alignment_def)

section \<open>Properties of \<open>_execute_with_retry\<close>\<close>

declare retry_loop.simps [simp del]

lemma pace_simulated:
  "pace (simulated p) \<lparr>world = w, trace = tr\<rparr> = \<lparr>world = w, trace = tr @ pace_ev p\<rparr>"
  by (simp add: pace_def simulated_def pace_ev_def tell_def)

lemma execute_scripted:
  "execute (simulated p) req \<lparr>world = out # w, trace = tr\<rparr>
     = (out, \<lparr>world = w, trace = tr @ [Execute req]\<rparr>)"
  by (simp add: execute_def simulated_def scripted_def tell_def)

lemma execute_scripted_Nil:
  "execute (simulated p) req \<lparr>world = [], trace = tr\<rparr>
     = (OtherFail, \<lparr>world = [], trace = tr @ [Execute req]\<rparr>)"
  by (simp add: execute_def simulated_def scripted_def tell_def)

lemma retry_loop_Success:
  "retry_loop (simulated p) req m a \<lparr>world = Success r # w, trace = tr\<rparr>
     = (Inr r, \<lparr>world = w, trace = tr @ pace_ev p @ [Execute req]\<rparr>)"
  by (subst retry_loop.simps) (simp add: pace_simulated execute_scripted)

lemma retry_loop_OtherFail:
  "retry_loop (simulated p) req m a \<lparr>world = OtherFail # w, trace = tr\<rparr>
     = (Inl OtherException, \<lparr>world = w, trace = tr @ pace_ev p @ [Execute req]\<rparr>)"
  by (subst retry_loop.simps) (simp add: pace_simulated execute_scripted)

lemma retry_loop_Nil:
  "retry_loop (simulated p) req m a \<lparr>world = [], trace = tr\<rparr>
     = (Inl OtherException, \<lparr>world = [], trace = tr @ pace_ev p @ [Execute req]\<rparr>)"
  by (subst retry_loop.simps) (simp add: pace_simulated execute_scripted_Nil)

lemma retry_loop_HttpFail:
  "retry_loop (simulated p) req m a \<lparr>world = HttpFail s # w, trace = tr\<rparr>
     = (if int (a + 1) > m \<or> \<not> transient s
        then (Inl (HttpError s), \<lparr>world = w, trace = tr @ pace_ev p @ [Execute req]\<rparr>)
        else retry_loop (simulated p) req m (a + 1)
               \<lparr>world = w, trace = tr @ failed_attempt p req (a + 1)\<rparr>)"
  by (subst retry_loop.simps)
     (simp add: pace_simulated execute_scripted transient_def failed_attempt_def tell_def)



lemma execute_with_retry_Success:
  "execute_with_retry (simulated p) req \<lparr>world = Success r # w, trace = tr\<rparr>
     = (Inr r, \<lparr>world = w, trace = tr @ pace_ev p @ [Execute req]\<rparr>)"
  by (simp add: execute_with_retry_def retry_loop_Success)

lemma execute_with_retry_page:
  "execute_with_retry (simulated p) req \<lparr>world = page its nxt # w, trace = tr\<rparr>
     = (Inr \<lparr>items = its, nextPageToken = nxt\<rparr>, \<lparr>world = w, trace = tr @ pace_ev p @ [Execute req]\<rparr>)"
  by (simp add: page_def execute_with_retry_Success)

lemma execute_with_retry_permanent:
  "\<not> transient s \<Longrightarrow>
   execute_with_retry (simulated p) req \<lparr>world = HttpFail s # w, trace = tr\<rparr>
     = (Inl (HttpError s), \<lparr>world = w, trace = tr @ pace_ev p @ [Execute req]\<rparr>)"
  by (simp add: execute_with_retry_def retry_loop_HttpFail)







section \<open>Properties of the comment fetcher\<close>

lemma encodable_authors_simps:
  "encodable_authors []"
  "encodable_authors (it # its)
     \<longleftrightarrow> encodable (str_of (authorDisplayName it)) \<and> encodable_authors its"
  "encodable_authors (xs @ ys) \<longleftrightarrow> encodable_authors xs \<and> encodable_authors ys"
  by (simp_all add: encodable_authors_def)

text \<open>
  The record that the code builds is the prescribed one when the author can be encoded;
  otherwise the code raises.
\<close>

lemma make_record_encodable:
  "encodable (str_of (authorDisplayName it)) \<Longrightarrow>
   make_record sha t it = Inr (record_of sha t it)"
  by (simp add: make_record_def record_of_def str_of_def)

lemma make_record_surrogate:
  "\<not> encodable (str_of (authorDisplayName it)) \<Longrightarrow>
   make_record sha t it = Inl UnicodeEncodeError"
  by (simp add: make_record_def)

lemma yield_items_exn:
  "yield_items sha t limit its fetched acc = Inl e \<Longrightarrow> e = UnicodeEncodeError"
  by (induction its arbitrary: fetched acc)
     (auto simp: make_record_def Let_def split: if_splits)

lemma yield_items_below:
  "encodable_authors its \<Longrightarrow> fetched + int (length its) < limit \<Longrightarrow>
   yield_items sha t limit its fetched acc
     = Inr (Fallthrough (acc @ map (record_of sha t) its, fetched + int (length its)))"
  by (induction its arbitrary: fetched acc)
     (simp_all add: encodable_authors_simps make_record_encodable)



lemma comments_loop_page:
  "fetched < limit \<Longrightarrow>
   comments_loop (simulated p) sha vid t limit tok fetched acc
       \<lparr>world = page its nxt # w, trace = tr\<rparr>
     = (case yield_items sha t limit its fetched acc of
          Inl e \<Rightarrow>
            Some (Inl e, \<lparr>world = w, trace = tr @ paced p [CommentThreadsList vid (min 100 (limit - fetched)) tok]\<rparr>)
        | Inr (Returned (acc', fetched')) \<Rightarrow>
            Some (Inr acc', \<lparr>world = w, trace = tr @ paced p [CommentThreadsList vid (min 100 (limit - fetched)) tok]\<rparr>)
        | Inr (Fallthrough (acc', fetched')) \<Rightarrow>
            if \<not> truthy nxt
            then Some (Inr acc', \<lparr>world = w, trace = tr @ paced p [CommentThreadsList vid (min 100 (limit - fetched)) tok]\<rparr>)
            else comments_loop (simulated p) sha vid t limit nxt fetched' acc'
                   \<lparr>world = w, trace = tr @ paced p [CommentThreadsList vid (min 100 (limit - fetched)) tok]\<rparr>)"
  by (subst comments_loop.simps)
     (simp add: execute_with_retry_page paced_def split: sum.splits flow.splits prod.splits)

lemma comments_loop_error:
  "fetched < limit \<Longrightarrow>
   execute_with_retry self (CommentThreadsList vid (min 100 (limit - fetched)) tok) st
     = (Inl e, st') \<Longrightarrow>
   comments_loop self sha vid t limit tok fetched acc st
     = (if e = HttpError 403 \<or> e = HttpError 404 then Some (Inr acc, st') else Some (Inl e, st'))"
  by (subst comments_loop.simps) (auto split: exn.splits)

lemma execute_with_retry_denied:
  assumes "youtube self (world st) req = (HttpFail s, w')" and "s = 403 \<or> s = 404"
  shows "execute_with_retry self req st
     = (Inl (HttpError s), tell (Execute req) ((pace self st)\<lparr>world := w'\<rparr>))"
proof -
  have "world (pace self st) = world st" by (simp add: pace_def tell_def)
  with assms(1) have "execute self req (pace self st)
      = (HttpFail s, tell (Execute req) ((pace self st)\<lparr>world := w'\<rparr>))"
    by (simp add: execute_def)
  with assms(2) show ?thesis
    by (subst execute_with_retry_def, subst retry_loop.simps) auto
qed




lemma all_items_Cons: "all_items ((its, nxt) # rest) = its @ all_items rest"
  by (simp add: all_items_def)

lemma pages_Cons: "pages ((its, nxt) # rest) = page its nxt # pages rest"
  by (simp add: pages_def)






lemma retry_loop_exn:
  "retry_loop self req m a st = (Inl e, st') \<Longrightarrow> fetch_exn e"
proof (induction self req m a st rule: retry_loop.induct)
  case (1 self req max_retries attempt st)
  obtain out st1 where ex: "execute self req (pace self st) = (out, st1)"
    by (cases "execute self req (pace self st)")
  show ?case
  proof (cases out)
    case (Success r)
    with ex "1.prems" show ?thesis
      by (subst (asm) retry_loop.simps) simp
  next
    case OtherFail
    with ex "1.prems" show ?thesis
      by (subst (asm) retry_loop.simps) auto
  next
    case (HttpFail s)
    show ?thesis
    proof (cases "max_retries < int (attempt + 1) \<or> s \<notin> {429, 500, 503}")
      case True
      with ex HttpFail "1.prems" show ?thesis
        by (subst (asm) retry_loop.simps) (auto split: if_splits)
    next
      case False
      with ex HttpFail "1.prems"
      have "retry_loop self req max_retries (attempt + 1)
              (tell (Backoff (min (2 ^ (attempt + 1)) 30)) st1) = (Inl e, st')"
        by (subst (asm) retry_loop.simps) auto
      moreover from False have "\<not> max_retries < int (attempt + 1)" and "s \<in> {429, 500, 503}"
        by simp_all
      ultimately show ?thesis
        using "1.IH" [OF ex [symmetric] HttpFail] by blast
    qed
  qed
qed

lemma execute_with_retry_exn:
  "execute_with_retry self req st = (Inl e, st') \<Longrightarrow> fetch_exn e"
  by (simp add: execute_with_retry_def retry_loop_exn)

lemma comments_loop_exn:
  assumes "comments_loop self sha vid t limit tok fetched acc st = Some y"
  shows "\<forall>e st'. y = (Inl e, st') \<longrightarrow> fetch_exn e"
proof (rule comments_loop.raw_induct
    [where P = "\<lambda>_ _ _ _ _ _ _ _ _ y. \<forall>e st'. y = (Inl e, st') \<longrightarrow> fetch_exn e", OF _ assms])
  fix loop :: "'a scraper \<Rightarrow> (str \<Rightarrow> str) \<Rightarrow> str \<Rightarrow> str \<Rightarrow> int \<Rightarrow> str option \<Rightarrow> int
     \<Rightarrow> CommentRecord list \<Rightarrow> 'a state \<Rightarrow> ((exn + CommentRecord list) \<times> 'a state) option"
  fix self sha vid t limit tok fetched acc st y
  assume IH: "\<And>self sha vid t limit tok fetched acc st y.
      loop self sha vid t limit tok fetched acc st = Some y
      \<Longrightarrow> \<forall>e st'. y = (Inl e, st') \<longrightarrow> fetch_exn e"
  assume prems: "(if fetched < limit then
        (case execute_with_retry self
                (CommentThreadsList vid (min 100 (limit - fetched)) tok) st of
           (Inl (HttpError status), st') \<Rightarrow>
             if status \<in> {403, 404} then Some (Inr acc, st')
             else Some (Inl (HttpError status), st')
         | (Inl e, st') \<Rightarrow> Some (Inl e, st')
         | (Inr response, st') \<Rightarrow>
             (case yield_items sha t limit (items response) fetched acc of
                Inl e \<Rightarrow> Some (Inl e, st')
              | Inr (Returned (acc', fetched')) \<Rightarrow> Some (Inr acc', st')
              | Inr (Fallthrough (acc', fetched')) \<Rightarrow>
                  if \<not> truthy (nextPageToken response) then Some (Inr acc', st')
                  else loop self sha vid t limit (nextPageToken response) fetched' acc' st'))
      else Some (Inr acc, st)) = Some y"
  show "\<forall>e st'. y = (Inl e, st') \<longrightarrow> fetch_exn e"
  proof (cases "fetched < limit")
    case False
    with prems show ?thesis by auto
  next
    case True
    obtain r st1 where ex: "execute_with_retry self
        (CommentThreadsList vid (min 100 (limit - fetched)) tok) st = (r, st1)"
      by (cases "execute_with_retry self
        (CommentThreadsList vid (min 100 (limit - fetched)) tok) st")
    show ?thesis
    proof (cases r)
      case (Inl e0)
      with ex have "fetch_exn e0" by (simp add: execute_with_retry_exn)
      with prems True ex Inl show ?thesis
        by (cases e0) (auto split: if_splits)
    next
      case (Inr response)
      show ?thesis
      proof (cases "yield_items sha t limit (items response) fetched acc")
        case raised: (Inl e1)
        then have "e1 = UnicodeEncodeError" by (rule yield_items_exn)
        with prems True ex Inr raised show ?thesis by auto
      next
        case yielded: (Inr fl)
        show ?thesis
        proof (cases fl)
          case (Returned x)
          with prems True ex Inr yielded show ?thesis
            by (cases x) auto
        next
          case (Fallthrough x)
          obtain acc' fetched' where x: "x = (acc', fetched')" by (cases x)
          show ?thesis
          proof (cases "truthy (nextPageToken response)")
            case False
            with prems True ex Inr yielded Fallthrough x show ?thesis by auto
          next
            case tok: True
            with prems True ex Inr yielded Fallthrough x
            have "loop self sha vid t limit (nextPageToken response) fetched' acc' st1 = Some y"
              by simp
            then show ?thesis by (rule IH)
          qed
        qed
      qed
    qed
  qed
qed

lemma get_video_title_exn:
  "get_video_title self v st = (Inl e, st') \<Longrightarrow> fetch_exn e"
  by (auto simp: get_video_title_def split: prod.splits sum.splits list.splits
        dest: execute_with_retry_exn)

lemma videos_loop_exn:
  "videos_loop self sha limit vs all_records st = Some (Inl e, st') \<Longrightarrow> fetch_exn e"
proof (induction vs arbitrary: all_records st)
  case Nil
  then show ?case by simp
next
  case (Cons v vs)
  obtain r st1 where ti: "get_video_title self v st = (r, st1)"
    by (cases "get_video_title self v st")
  show ?case
  proof (cases r)
    case (Inl e0)
    with ti Cons.prems show ?thesis by (auto dest: get_video_title_exn)
  next
    case (Inr vtitle)
    show ?thesis
    proof (cases "fetch_top_level_comments self sha v vtitle limit st1")
      case None
      with ti Inr Cons.prems show ?thesis by simp
    next
      case (Some y)
      obtain r2 st2 where y: "y = (r2, st2)" by (cases y)
      show ?thesis
      proof (cases r2)
        case (Inl e0)
        with Some y have "fetch_exn e0"
          using comments_loop_exn [of self sha v vtitle limit None 0 "[]" st1 y]
          by (simp add: fetch_top_level_comments_def)
        with ti Inr Some y Inl Cons.prems show ?thesis by simp
      next
        case (Inr records)
        with ti \<open>r = Inr vtitle\<close> Some y Cons.prems
        have "videos_loop self sha limit vs (all_records @ records) st2 = Some (Inl e, st')"
          by simp
        then show ?thesis by (rule Cons.IH)
      qed
    qed
  qed
qed

lemma not_transient_access: "s = 403 \<or> s = 404 \<Longrightarrow> \<not> transient s"
  by (auto simp: transient_def)

lemma comments_loop_access_error:
  assumes "list_all (\<lambda>pg. truthy (snd pg)) pgs"
    and "fetched + int (length (all_items pgs)) < limit"
    and "s = 403 \<or> s = 404"
    and "encodable_authors (all_items pgs)"
  shows "comments_loop (simulated p) sha vid t limit tok fetched acc
           \<lparr>world = pages pgs @ HttpFail s # w, trace = tr\<rparr>
     = Some (Inr (acc @ map (record_of sha t) (all_items pgs)),
         \<lparr>world = w,
          trace = tr @ paced p (page_requests vid limit tok fetched pgs
                                 @ [next_request vid limit tok fetched pgs])\<rparr>)"
  using assms
proof (induction pgs arbitrary: tok fetched acc tr)
  case Nil
  let ?req = "CommentThreadsList vid (min 100 (limit - fetched)) tok"
  from Nil.prems have "fetched < limit" by (simp add: all_items_def)
  moreover from Nil.prems have "execute_with_retry (simulated p) ?req \<lparr>world = HttpFail s # w, trace = tr\<rparr>
      = (Inl (HttpError s), \<lparr>world = w, trace = tr @ pace_ev p @ [Execute ?req]\<rparr>)"
    by (simp add: execute_with_retry_permanent not_transient_access)
  ultimately have "comments_loop (simulated p) sha vid t limit tok fetched acc
           \<lparr>world = HttpFail s # w, trace = tr\<rparr>
      = Some (Inr acc, \<lparr>world = w, trace = tr @ pace_ev p @ [Execute ?req]\<rparr>)"
    using Nil.prems(3) by (auto simp: comments_loop_error)
  then show ?case by (simp add: pages_def all_items_def paced_def)
next
  case (Cons pg rest)
  obtain its nxt where pg: "pg = (its, nxt)" by (cases pg)
  let ?req = "CommentThreadsList vid (min 100 (limit - fetched)) tok"
  from Cons.prems have nxt: "truthy nxt" and rest: "list_all (\<lambda>pg. truthy (snd pg)) rest"
    and total: "fetched + int (length its) + int (length (all_items rest)) < limit"
    and enc: "encodable_authors its" and enc_rest: "encodable_authors (all_items rest)"
    by (simp_all add: pg all_items_Cons encodable_authors_simps)
  from total have running: "fetched < limit" and below: "fetched + int (length its) < limit"
    by linarith+
  from Cons.IH [OF rest _ Cons.prems(3) enc_rest, of "fetched + int (length its)" nxt
      "acc @ map (record_of sha t) its" "tr @ paced p [?req]"] total
  have "comments_loop (simulated p) sha vid t limit nxt (fetched + int (length its))
          (acc @ map (record_of sha t) its)
          \<lparr>world = pages rest @ HttpFail s # w, trace = tr @ paced p [?req]\<rparr>
      = Some (Inr ((acc @ map (record_of sha t) its) @ map (record_of sha t) (all_items rest)),
          \<lparr>world = w,
           trace = (tr @ paced p [?req]) @
              paced p (page_requests vid limit nxt (fetched + int (length its)) rest
                        @ [next_request vid limit nxt (fetched + int (length its)) rest])\<rparr>)"
    by simp
  moreover have "paced p (page_requests vid limit tok fetched (pg # rest)
                           @ [next_request vid limit tok fetched (pg # rest)])
      = paced p [?req] @ paced p (page_requests vid limit nxt (fetched + int (length its)) rest
                        @ [next_request vid limit nxt (fetched + int (length its)) rest])"
    by (simp add: pg paced_def)
  ultimately show ?case
    using running below nxt enc
    by (simp add: pg pages_Cons all_items_Cons comments_loop_page yield_items_below)
qed





section \<open>The claims about the comment fetcher\<close>

lemmas sample_defs =
  comment_def no_item_def str_of_def encodable_def surrogate_def make_record_def demo_digest_def
  u_def




text \<open>
  Claim C4. A comment-page request that is answered with status 403 or 404 ends the
  retrieval for the video: the result is the list of the records collected so far, not
  an exception, and the request is executed once (first conjunct, for any service and
  any state of the loop: the state after is the state after the pacing sleep and this
  one execution). Second conjunct: when the request follows pages that were fetched,
  the result is the list of the records of their comments, the empty list when it is
  the first page, and the rest \<open>w\<close> of the service's outcomes is untouched. The authors
  of these pages can be encoded: with an author that cannot, the retrieval has ended
  with \<open>UnicodeEncodeError\<close> at that page and the request of the claim is not made.
\<close>

theorem access_error_keeps_partial:
  "(fetched < limit \<and> (s = 403 \<or> s = 404) \<and>
    youtube self (world st) (CommentThreadsList vid (min 100 (limit - fetched)) tok) = (HttpFail s, w')
    \<longrightarrow>
      comments_loop self sha vid t limit tok fetched acc st
        = Some (Inr acc,
            tell (Execute (CommentThreadsList vid (min 100 (limit - fetched)) tok))
              ((pace self st)\<lparr>world := w'\<rparr>))) \<and>
   (list_all (\<lambda>pg. truthy (snd pg)) pgs \<and> encodable_authors (all_items pgs) \<and>
    int (length (all_items pgs)) < limit \<and> (s = 403 \<or> s = 404) \<longrightarrow>
      fetch_top_level_comments (simulated p) sha vid t limit
          \<lparr>world = pages pgs @ HttpFail s # w, trace = tr\<rparr>
        = Some (Inr (map (record_of sha t) (all_items pgs)),
            \<lparr>world = w,
             trace = tr @ paced p (page_requests vid limit None 0 pgs
                                    @ [next_request vid limit None 0 pgs])\<rparr>))"
proof (intro conjI impI)
  assume h: "fetched < limit \<and> (s = 403 \<or> s = 404) \<and>
    youtube self (world st) (CommentThreadsList vid (min 100 (limit - fetched)) tok) = (HttpFail s, w')"
  then have "execute_with_retry self (CommentThreadsList vid (min 100 (limit - fetched)) tok) st
      = (Inl (HttpError s),
         tell (Execute (CommentThreadsList vid (min 100 (limit - fetched)) tok))
           ((pace self st)\<lparr>world := w'\<rparr>))"
    by (intro execute_with_retry_denied) simp_all
  with h show "comments_loop self sha vid t limit tok fetched acc st
        = Some (Inr acc,
            tell (Execute (CommentThreadsList vid (min 100 (limit - fetched)) tok))
              ((pace self st)\<lparr>world := w'\<rparr>))"
    by (auto simp: comments_loop_error)
next
  assume "list_all (\<lambda>pg. truthy (snd pg)) pgs \<and> encodable_authors (all_items pgs) \<and>
    int (length (all_items pgs)) < limit \<and> (s = 403 \<or> s = 404)"
  then show "fetch_top_level_comments (simulated p) sha vid t limit
          \<lparr>world = pages pgs @ HttpFail s # w, trace = tr\<rparr>
        = Some (Inr (map (record_of sha t) (all_items pgs)),
            \<lparr>world = w,
             trace = tr @ paced p (page_requests vid limit None 0 pgs
                                    @ [next_request vid limit None 0 pgs])\<rparr>)"
    using comments_loop_access_error [of pgs 0 limit s p sha vid t None "[]" w tr]
    by (simp add: fetch_top_level_comments_def)
qed

theorem access_error_keeps_partial_witness:
  "comments_loop (simulated (1 / 10)) demo_digest (u ''v1'') (u ''T'') 100 None 0 []
       (start [HttpFail 403, page [comment (u ''ann'') (u ''hello'')] None])
     = Some (Inr [],
         \<lparr>world = [page [comment (u ''ann'') (u ''hello'')] None],
          trace = [Pace (1 / 10), Execute (CommentThreadsList (u ''v1'') 100 None)]\<rparr>) \<and>
   fetch_top_level_comments (simulated (1 / 10)) demo_digest (u ''v1'') (u ''T'') 100
       (start [page [comment (u ''ann'') (u ''hello'')] (Some (u ''p2'')), HttpFail 404,
               page [comment (u ''bob'') (u ''bye'')] None])
     = Some (Inr [\<lparr>video_title = u ''T'', comment_text = u ''hello'', comment_date = [],
                    like_count = 0, username_hash = u ''#ann''\<rparr>],
         \<lparr>world = [page [comment (u ''bob'') (u ''bye'')] None],
          trace = [Pace (1 / 10), Execute (CommentThreadsList (u ''v1'') 100 None),
                   Pace (1 / 10), Execute (CommentThreadsList (u ''v1'') 99 (Some (u ''p2'')))]\<rparr>)"
proof -
  note denied = access_error_keeps_partial [where fetched = 0 and limit = 100 and s = 403
      and self = "simulated (1 / 10)"
      and st = "start [HttpFail 403, page [comment (u ''ann'') (u ''hello'')] None]"
      and vid = "u ''v1''" and tok = None
      and w' = "[page [comment (u ''ann'') (u ''hello'')] None]"
      and sha = demo_digest and t = "u ''T''" and acc = "[]" and pgs = "[]" and p = "1 / 10"
      and w = "[]" and tr = "[]"]
  note partial = access_error_keeps_partial [where fetched = 0 and limit = 100 and s = 404
      and self = "simulated (1 / 10)"
      and st = "start [HttpFail 403, page [comment (u ''ann'') (u ''hello'')] None]"
      and vid = "u ''v1''" and tok = None
      and w' = "[page [comment (u ''ann'') (u ''hello'')] None]"
      and sha = demo_digest and t = "u ''T''" and acc = "[]"
      and pgs = "[([comment (u ''ann'') (u ''hello'')], Some (u ''p2''))]" and p = "1 / 10"
      and w = "[page [comment (u ''bob'') (u ''bye'')] None]" and tr = "[]"]
  have "encodable_authors [comment (u ''ann'') (u ''hello'')]"
    and "record_of demo_digest (u ''T'') (comment (u ''ann'') (u ''hello''))
      = \<lparr>video_title = u ''T'', comment_text = u ''hello'', comment_date = [],
          like_count = 0, username_hash = u ''#ann''\<rparr>"
    by (simp_all add: encodable_authors_def record_of_def sample_defs)
  moreover have "u ''p2'' \<noteq> []"
    by (simp add: u_def)
  ultimately show ?thesis
    using denied partial
    by (simp add: all_items_def pages_def paced_def pace_ev_def start_def truthy_def
          simulated_def scripted_def pace_def tell_def)
qed

text \<open>
  Claim C5. With a per-video limit below 100 or above 500, \<open>fetch_comments_for_videos\<close>
  raises the validation error in the state it was called in: no request was executed.
  With a limit from 100 to 500, both included, whatever the service does, the call does
  not end with the validation error.
\<close>

theorem per_video_limit_validation:
  "(per_video_limit < 100 \<or> per_video_limit > 500 \<longrightarrow>
      fetch_comments_for_videos self sha video_ids per_video_limit st
        = Some (Inl (ValueError (u ''per_video_limit must be between 100 and 500'')), st)) \<and>
   (100 \<le> per_video_limit \<and> per_video_limit \<le> 500 \<longrightarrow>
      (\<forall>st'. fetch_comments_for_videos self sha video_ids per_video_limit st
         \<noteq> Some (Inl (ValueError (u ''per_video_limit must be between 100 and 500'')), st')))"
  by (auto simp: fetch_comments_for_videos_def dest: videos_loop_exn)

theorem per_video_limit_validation_witness:
  "fetch_comments_for_videos (simulated (1 / 10)) demo_digest [u ''v1''] 99 (start [])
     = Some (Inl (ValueError (u ''per_video_limit must be between 100 and 500'')), start []) \<and>
   fetch_comments_for_videos (simulated (1 / 10)) demo_digest [u ''v1''] 501 (start [])
     = Some (Inl (ValueError (u ''per_video_limit must be between 100 and 500'')), start []) \<and>
   (\<forall>st'. fetch_comments_for_videos (simulated (1 / 10)) demo_digest [u ''v1''] 100 (start [])
      \<noteq> Some (Inl (ValueError (u ''per_video_limit must be between 100 and 500'')), st')) \<and>
   (\<forall>st'. fetch_comments_for_videos (simulated (1 / 10)) demo_digest [u ''v1''] 500 (start [])
      \<noteq> Some (Inl (ValueError (u ''per_video_limit must be between 100 and 500'')), st'))"
  using per_video_limit_validation [of 99 "simulated (1 / 10)" demo_digest "[u ''v1'']" "start []"]
    per_video_limit_validation [of 501 "simulated (1 / 10)" demo_digest "[u ''v1'']" "start []"]
    per_video_limit_validation [of 100 "simulated (1 / 10)" demo_digest "[u ''v1'']" "start []"]
    per_video_limit_validation [of 500 "simulated (1 / 10)" demo_digest "[u ''v1'']" "start []"]
  by simp





section \<open>Properties of the channel resolver\<close>

lemma match_channel_url_nonempty: "match_channel_url s = Some g \<Longrightarrow> g \<noteq> []"
  by (auto simp: match_channel_url_def Let_def split: if_splits)

lemma re_search_group_nonempty:
  "(\<And>s g. m s = Some g \<Longrightarrow> g \<noteq> []) \<Longrightarrow> re_search_group m s = Some g \<Longrightarrow> g \<noteq> []"
  by (induction s) (auto split: option.splits)

lemma try_extract_channel_id_nonempty:
  assumes "try_extract_channel_id raw = Some cid"
  shows "cid \<noteq> []"
proof (cases "re_search_group match_channel_url raw")
  case None
  with assms show ?thesis
    by (auto simp: try_extract_channel_id_def split: if_splits)
next
  case (Some g)
  with assms have "g = cid" by (simp add: try_extract_channel_id_def)
  with Some show ?thesis
    using re_search_group_nonempty [of match_channel_url raw cid] match_channel_url_nonempty
    by blast
qed

lemma try_extract_channel_id_Nil: "try_extract_channel_id [] = None"
  by (simp add: try_extract_channel_id_def match_channel_url_def imatch_prefix_def startswith_def u_def)

lemmas resolver_defs =
  try_extract_channel_id_def try_extract_handle_def match_channel_url_def match_handle_url_def
  imatch_prefix_def imatch_def id_char_def handle_char_def startswith_def strip_def lstrip_def
  rstrip_def isspace_def u_def

lemma both_url_extract:
  "try_extract_channel_id (strip both_url) = Some (u ''UCabcdefghijklmnopqrst'')"
  "try_extract_handle (strip both_url) = Some (u ''@natureliving youtube.com'')"
  by (simp_all add: both_url_def resolver_defs)

lemma both_tokens_extract:
  "try_extract_channel_id (strip both_tokens) = None"
  "try_extract_handle (strip both_tokens) = Some both_tokens"
  by (simp_all add: both_tokens_def resolver_defs)

lemma both_tokens_strip: "strip both_tokens = both_tokens"
  by (simp add: both_tokens_def resolver_defs)

lemma both_tokens_handle:
  "resolve_channel_id_from_handle (simulated (1 / 10)) both_tokens
       (start [page [no_item\<lparr>item_id := Value (u ''UCzyxwvutsrqponmlkjihg'')\<rparr>] None])
     = (Inr (Some (u ''UCzyxwvutsrqponmlkjihg'')),
        \<lparr>world = [],
         trace = [Pace (1 / 10),
                  Execute (ChannelsListForHandle (u ''natureliving UCabcdefghijklmnopqrst''))]\<rparr>)"
proof -
  have "strip (dropWhile (\<lambda>c. c = 64) both_tokens) = u ''natureliving UCabcdefghijklmnopqrst''"
    by (simp add: both_tokens_def resolver_defs)
  moreover have "strip_or_None (u ''UCzyxwvutsrqponmlkjihg'') = Some (u ''UCzyxwvutsrqponmlkjihg'')"
    by (simp add: strip_or_None_def resolver_defs)
  moreover have "u ''natureliving UCabcdefghijklmnopqrst'' \<noteq> []"
    by (simp add: u_def)
  ultimately show ?thesis
    by (simp add: resolve_channel_id_from_handle_def execute_with_retry_page start_def
          pace_ev_def str_of_def no_item_def)
qed

text \<open>
  Claim C8, as the code has it. When the direct extraction finds an identifier in the
  stripped input (after \<open>youtube.com/channel/\<close> anywhere in it, or the input itself
  when it starts with \<open>UC\<close> and has 20 characters or more), \<open>resolve_channel_id\<close>
  returns this identifier and executes no request, whether or not a handle can be
  extracted from the input as well.
\<close>

theorem extracted_id_wins:
  assumes "try_extract_channel_id (strip v) = Some cid"
  shows "resolve_channel_id self (Some v) st = (Inr cid, st)"
proof -
  from assms have "cid \<noteq> []" by (rule try_extract_channel_id_nonempty)
  moreover from assms have "strip v \<noteq> []"
    using try_extract_channel_id_Nil by auto
  ultimately show ?thesis
    using assms by (simp add: resolve_channel_id_def get_str_def truthy_def)
qed

theorem extracted_id_wins_witness:
  "try_extract_channel_id (strip both_url) = Some (u ''UCabcdefghijklmnopqrst'') \<and>
   try_extract_handle (strip both_url) = Some (u ''@natureliving youtube.com'') \<and>
   resolve_channel_id (simulated (1 / 10)) (Some both_url) (start [])
     = (Inr (u ''UCabcdefghijklmnopqrst''), start [])"
  using extracted_id_wins [of both_url "u ''UCabcdefghijklmnopqrst''" "simulated (1 / 10)" "start []"]
    both_url_extract
  by simp

text \<open>
  Claim C8 as stated fails: an input made of a handle-shaped token and an
  identifier-shaped token, in this order, is resolved through the handle lookup, and the
  result is what the service answers, not the identifier in the input.
\<close>

theorem bare_id_token_counterexample:
  "id_shaped (u ''UCabcdefghijklmnopqrst'') \<and> handle_shaped (u ''@natureliving'') \<and>
   both_tokens = u ''@natureliving'' @ u '' '' @ u ''UCabcdefghijklmnopqrst'' \<and>
   resolve_channel_id (simulated (1 / 10)) (Some both_tokens)
       (start [page [no_item\<lparr>item_id := Value (u ''UCzyxwvutsrqponmlkjihg'')\<rparr>] None])
     = (Inr (u ''UCzyxwvutsrqponmlkjihg''),
        \<lparr>world = [],
         trace = [Pace (1 / 10),
                  Execute (ChannelsListForHandle (u ''natureliving UCabcdefghijklmnopqrst''))]\<rparr>) \<and>
   u ''UCzyxwvutsrqponmlkjihg'' \<noteq> u ''UCabcdefghijklmnopqrst''"
proof -
  have "id_shaped (u ''UCabcdefghijklmnopqrst'')" and "handle_shaped (u ''@natureliving'')"
    and "both_tokens = u ''@natureliving'' @ u '' '' @ u ''UCabcdefghijklmnopqrst''"
    and "u ''UCzyxwvutsrqponmlkjihg'' \<noteq> u ''UCabcdefghijklmnopqrst''"
    by (simp_all add: id_shaped_def handle_shaped_def both_tokens_def resolver_defs)
  moreover have "both_tokens \<noteq> []" and "u ''UCzyxwvutsrqponmlkjihg'' \<noteq> []"
    by (simp_all add: both_tokens_def u_def)
  then have "resolve_channel_id (simulated (1 / 10)) (Some both_tokens)
       (start [page [no_item\<lparr>item_id := Value (u ''UCzyxwvutsrqponmlkjihg'')\<rparr>] None])
     = (Inr (u ''UCzyxwvutsrqponmlkjihg''),
        \<lparr>world = [],
         trace = [Pace (1 / 10),
                  Execute (ChannelsListForHandle (u ''natureliving UCabcdefghijklmnopqrst''))]\<rparr>)"
    using both_tokens_extract [unfolded both_tokens_strip]
    by (simp add: resolve_channel_id_def get_str_def both_tokens_strip truthy_def
          both_tokens_handle)
  ultimately show ?thesis by blast
qed


section \<open>Properties of the batch run\<close>




lemma video_ids_loop_page:
  "video_ids_loop (simulated p) pl max_videos video_ids tok \<lparr>world = page its nxt # w, trace = tr\<rparr>
     = (case collect_video_ids max_videos its video_ids of
          Returned ids \<Rightarrow>
            Some (Inr ids, \<lparr>world = w, trace = tr @ paced p [PlaylistItemsList pl 50 tok]\<rparr>)
        | Fallthrough ids \<Rightarrow>
            if \<not> truthy nxt
            then Some (Inr ids, \<lparr>world = w, trace = tr @ paced p [PlaylistItemsList pl 50 tok]\<rparr>)
            else video_ids_loop (simulated p) pl max_videos ids nxt
                   \<lparr>world = w, trace = tr @ paced p [PlaylistItemsList pl 50 tok]\<rparr>)"
  by (subst video_ids_loop.simps)
     (simp add: execute_with_retry_page paced_def split: flow.splits)











section \<open>Properties of the video enumerator\<close>

declare playlist_pages.simps [simp del]

lemma collect_below:
  "list_all (\<lambda>v. v \<noteq> []) vs \<Longrightarrow> length ids + length vs < K \<Longrightarrow>
   collect_video_ids (Some (int K)) (map video_item vs) ids = Fallthrough (ids @ vs)"
  by (induction vs arbitrary: ids)
     (simp_all add: video_item_def no_item_def truthy_def get_str_def)

lemma collect_reach:
  "list_all (\<lambda>v. v \<noteq> []) vs \<Longrightarrow> length ids < K \<Longrightarrow> K \<le> length ids + length vs \<Longrightarrow>
   collect_video_ids (Some (int K)) (map video_item vs) ids
     = Returned (ids @ take (K - length ids) vs)"
proof (induction vs arbitrary: ids)
  case Nil
  then show ?case by simp
next
  case (Cons v vs)
  show ?case
  proof (cases "K \<le> length ids + 1")
    case True
    with Cons.prems have "K - length ids = Suc 0" by simp
    with True Cons.prems show ?thesis
      by (simp add: video_item_def no_item_def truthy_def get_str_def)
  next
    case False
    then have "K - length ids = Suc (K - length (ids @ [v]))" by simp
    with False Cons.prems Cons.IH [of "ids @ [v]"] show ?thesis
      by (simp add: video_item_def no_item_def truthy_def get_str_def)
  qed
qed

lemma next_truthy: "truthy (Some (u ''next''))"
  by (simp add: truthy_def u_def)

lemma pages_of_cap_one: "1 \<le> (d::nat) \<Longrightarrow> d \<le> 50 \<Longrightarrow> (d + 49) div 50 = 1"
  by simp

lemma pages_of_cap_more:
  assumes "\<not> (d::nat) \<le> 50"
  shows "\<exists>m. (d + 49) div 50 = Suc (Suc m) \<and> (d - 50 + 49) div 50 = Suc m"
proof -
  from assms have a: "(d - 50 + 49) div 50 = (d + 49) div 50 - 1" by simp
  from assms have b: "(d + 49) div 50 - 1 \<noteq> 0" by simp
  then obtain m where m: "(d + 49) div 50 - 1 = Suc m" by (cases "(d + 49) div 50 - 1") simp_all
  then have "(d + 49) div 50 = Suc (Suc m)" by linarith
  with a m show ?thesis by simp
qed

lemma video_ids_loop_cap:
  assumes "list_all (\<lambda>v. v \<noteq> []) vs" and "length ids < K" and "K \<le> length ids + length vs"
  shows "video_ids_loop (simulated p) pl (Some (int K)) ids tok
           \<lparr>world = playlist_pages vs @ w, trace = tr\<rparr>
     = Some (Inr (ids @ take (K - length ids) vs),
         \<lparr>world = drop ((K - length ids + 49) div 50) (playlist_pages vs) @ w,
          trace = tr @ paced p (playlist_requests pl tok ((K - length ids + 49) div 50))\<rparr>)"
  using assms
proof (induction vs arbitrary: ids tok tr rule: playlist_pages.induct)
  case (1 vs)
  let ?d = "K - length ids"
  from "1.prems" have d: "1 \<le> ?d" "?d \<le> length vs" by simp_all
  show ?case
  proof (cases "?d \<le> 50")
    case True
    with d have n: "(?d + 49) div 50 = 1" by (simp add: pages_of_cap_one)
    show ?thesis
    proof (cases "length vs \<le> 50")
      case short: True
      then have pp: "playlist_pages vs = [page (map video_item vs) None]"
        by (subst playlist_pages.simps) simp
      from "1.prems" have "video_ids_loop (simulated p) pl (Some (int K)) ids tok
           \<lparr>world = playlist_pages vs @ w, trace = tr\<rparr>
         = Some (Inr (ids @ take ?d vs),
             \<lparr>world = drop 1 (playlist_pages vs) @ w,
              trace = tr @ paced p (playlist_requests pl tok 1)\<rparr>)"
        by (simp add: pp video_ids_loop_page collect_reach playlist_requests_def)
      then show ?thesis by (simp only: n)
    next
      case long: False
      then have pp: "playlist_pages vs
          = page (map video_item (take 50 vs)) (Some (u ''next'')) # playlist_pages (drop 50 vs)"
        by (subst playlist_pages.simps) simp
      from "1.prems" have "list_all (\<lambda>v. v \<noteq> []) (take 50 vs)"
        by (auto simp: list_all_iff dest: in_set_takeD)
      moreover from long True "1.prems" have "K \<le> length ids + length (take 50 vs)" by simp
      moreover from True have "take ?d (take 50 vs) = take ?d vs" by (simp add: min_def)
      ultimately have "video_ids_loop (simulated p) pl (Some (int K)) ids tok
           \<lparr>world = playlist_pages vs @ w, trace = tr\<rparr>
         = Some (Inr (ids @ take ?d vs),
             \<lparr>world = drop 1 (playlist_pages vs) @ w,
              trace = tr @ paced p (playlist_requests pl tok 1)\<rparr>)"
        using "1.prems"(2)
        by (simp add: pp video_ids_loop_page collect_reach playlist_requests_def)
      then show ?thesis by (simp only: n)
    qed
  next
    case False
    with d have long: "\<not> length vs \<le> 50" by simp
    then have pp: "playlist_pages vs
        = page (map video_item (take 50 vs)) (Some (u ''next'')) # playlist_pages (drop 50 vs)"
      by (subst playlist_pages.simps) simp
    let ?ids' = "ids @ take 50 vs"
    from long have len': "length ?ids' = length ids + 50" by simp
    then have d': "K - length ?ids' = ?d - 50" by simp
    from "1.prems" have all50: "list_all (\<lambda>v. v \<noteq> []) (take 50 vs)"
      and alld: "list_all (\<lambda>v. v \<noteq> []) (drop 50 vs)"
      by (auto simp: list_all_iff dest: in_set_takeD in_set_dropD)
    from False long have below: "length ids + length (take 50 vs) < K" by simp
    from False "1.prems" len' have p2: "length ?ids' < K"
      and p3: "K \<le> length ?ids' + length (drop 50 vs)"
      by simp_all
    from pages_of_cap_more [OF False] obtain m
      where n: "(?d + 49) div 50 = Suc (Suc m)" and n': "(?d - 50 + 49) div 50 = Suc m"
      by blast
    have tk: "?ids' @ take (?d - 50) (drop 50 vs) = ids @ take ?d vs"
    proof -
      from False have "?d = 50 + (?d - 50)" by simp
      then have "take ?d vs = take 50 vs @ take (?d - 50) (drop 50 vs)"
        by (metis take_add)
      then show ?thesis by simp
    qed
    from "1.IH" [OF long alld p2 p3, of "Some (u ''next'')" "tr @ paced p [PlaylistItemsList pl 50 tok]"]
    have "video_ids_loop (simulated p) pl (Some (int K)) ?ids' (Some (u ''next''))
           \<lparr>world = playlist_pages (drop 50 vs) @ w, trace = tr @ paced p [PlaylistItemsList pl 50 tok]\<rparr>
       = Some (Inr (?ids' @ take (?d - 50) (drop 50 vs)),
           \<lparr>world = drop (Suc m) (playlist_pages (drop 50 vs)) @ w,
            trace = (tr @ paced p [PlaylistItemsList pl 50 tok])
                  @ paced p (playlist_requests pl (Some (u ''next'')) (Suc m))\<rparr>)"
      by (simp only: d' n')
    then have "video_ids_loop (simulated p) pl (Some (int K)) ?ids' (Some (u ''next''))
           \<lparr>world = playlist_pages (drop 50 vs) @ w, trace = tr @ paced p [PlaylistItemsList pl 50 tok]\<rparr>
       = Some (Inr (ids @ take ?d vs),
           \<lparr>world = drop (Suc (Suc m)) (playlist_pages vs) @ w,
            trace = tr @ paced p (playlist_requests pl tok (Suc (Suc m)))\<rparr>)"
      by (simp only: tk) (simp add: pp playlist_requests_def paced_def)
    with below all50 have "video_ids_loop (simulated p) pl (Some (int K)) ids tok
           \<lparr>world = playlist_pages vs @ w, trace = tr\<rparr>
       = Some (Inr (ids @ take ?d vs),
           \<lparr>world = drop (Suc (Suc m)) (playlist_pages vs) @ w,
            trace = tr @ paced p (playlist_requests pl tok (Suc (Suc m)))\<rparr>)"
      by (simp add: pp video_ids_loop_page collect_below next_truthy)
    then show ?thesis by (simp only: n)
  qed
qed


lemma length_playlist_requests: "length (playlist_requests pl tok n) = n"
  by (simp add: playlist_requests_def)

lemma get_uploads_found:
  "pl \<noteq> [] \<Longrightarrow>
   get_uploads_playlist_id (simulated p) cid \<lparr>world = uploads_found pl # w, trace = tr\<rparr>
     = (Inr pl, \<lparr>world = w, trace = tr @ paced p [ChannelsListById cid]\<rparr>)"
  by (simp add: get_uploads_playlist_id_def uploads_found_def execute_with_retry_page
        truthy_def get_str_def no_item_def paced_def)

text \<open>
  With a cap \<open>K\<close> from 1 up to the number of uploads, below it, the enumerator returns
  the first \<open>K\<close> identifiers, in the order of the service, after the lookup of the
  collection and \<open>(K + 49) div 50\<close> page requests.
\<close>

lemma enumerator_cap:
  assumes "list_all (\<lambda>v. v \<noteq> []) vids" and "1 \<le> K" and "K < length vids" and "pl \<noteq> []"
  shows "fetch_video_ids_from_channel (simulated p) cid (Some (int K))
           \<lparr>world = uploads_found pl # playlist_pages vids @ w, trace = tr\<rparr>
     = Some (Inr (take K vids),
         \<lparr>world = drop ((K + 49) div 50) (playlist_pages vids) @ w,
          trace = tr @ paced p [ChannelsListById cid]
                     @ paced p (playlist_requests pl None ((K + 49) div 50))\<rparr>)"
  using assms
    video_ids_loop_cap [of vids "[]" K p pl None w "tr @ paced p [ChannelsListById cid]"]
  by (simp add: fetch_video_ids_from_channel_def get_uploads_found)

text \<open>
  Claim C6 at the cap \<open>K = 0\<close>, for a channel with two uploads: the claim promises no
  identifier and no page request; the enumerator returns one identifier after one page
  request, because it compares the count with the cap only after it has appended an
  identifier.
\<close>

theorem cap_zero_returns_one_video:
  "fetch_video_ids_from_channel (simulated (1 / 10)) (u ''UCbeta'') (Some 0)
       (start (uploads_found (u ''UUbeta'') # playlist_pages [u ''v1'', u ''v2'']))
     = Some (Inr [u ''v1''],
         \<lparr>world = [],
          trace = [Pace (1 / 10), Execute (ChannelsListById (u ''UCbeta'')),
                   Pace (1 / 10), Execute (PlaylistItemsList (u ''UUbeta'') 50 None)]\<rparr>)"
proof -
  have "playlist_pages [u ''v1'', u ''v2''] = [page [video_item (u ''v1''), video_item (u ''v2'')] None]"
    by (subst playlist_pages.simps) simp
  moreover have "u ''UUbeta'' \<noteq> []" and "u ''v1'' \<noteq> []"
    by (simp_all add: u_def)
  ultimately show ?thesis
    by (simp add: fetch_video_ids_from_channel_def get_uploads_found start_def
          video_ids_loop_page video_item_def no_item_def truthy_def get_str_def paced_def
          pace_ev_def)
qed


section \<open>Properties of \<open>clean_text\<close>\<close>

lemmas clean_defs =
  clean_text_def url_at_def nonspace_at_def char_at_def emoji_def kept_def imatch_prefix_def
  imatch_def strip_def lstrip_def rstrip_def isspace_def ascii_lower_def u_def

lemma adjacent_spaces_Cons:
  "adjacent_spaces (x # ys) \<longleftrightarrow> (ys \<noteq> [] \<and> isspace x \<and> isspace (hd ys)) \<or> adjacent_spaces ys"
  by (cases ys) simp_all

lemma adjacent_spaces_append:
  "adjacent_spaces xs \<or> adjacent_spaces ys \<Longrightarrow> adjacent_spaces (xs @ ys)"
proof (induction xs)
  case Nil
  then show ?case by simp
next
  case (Cons x xs)
  then show ?case
    by (cases xs) (auto simp: adjacent_spaces_Cons)
qed

lemma runs_sub_set:
  "c \<in> set (runs_sub P b s) \<Longrightarrow> c = 32 \<or> (c \<in> set s \<and> \<not> P c)"
  by (induction s arbitrary: b) (auto split: if_splits)

lemma runs_sub_spaces:
  "\<not> adjacent_spaces (runs_sub isspace b s) \<and>
   (b \<longrightarrow> runs_sub isspace b s = [] \<or> \<not> isspace (hd (runs_sub isspace b s)))"
proof (induction s arbitrary: b)
  case Nil
  then show ?case by simp
next
  case (Cons c cs)
  from Cons.IH [of True] Cons.IH [of False] show ?case
    by (auto simp: adjacent_spaces_Cons)
qed

lemma strip_decompose: "\<exists>pre post. s = pre @ strip s @ post"
proof -
  have "s = takeWhile isspace s @ dropWhile isspace s" by simp
  moreover have "rev (dropWhile isspace s)
      = takeWhile isspace (rev (dropWhile isspace s)) @ dropWhile isspace (rev (dropWhile isspace s))"
    by simp
  then have "dropWhile isspace s
      = rev (dropWhile isspace (rev (dropWhile isspace s)))
        @ rev (takeWhile isspace (rev (dropWhile isspace s)))"
    by (metis rev_append rev_rev_ident)
  ultimately have "s = takeWhile isspace s @ strip s
        @ rev (takeWhile isspace (rev (dropWhile isspace s)))"
    by (simp add: strip_def lstrip_def rstrip_def)
  then show ?thesis by blast
qed

lemma strip_subset: "set (strip s) \<subseteq> set s"
proof -
  from strip_decompose [of s] obtain pre post where "s = pre @ strip s @ post" by blast
  then have "set s = set pre \<union> set (strip s) \<union> set post"
    by (metis set_append sup_assoc)
  then show ?thesis by blast
qed

lemma strip_spaces: "\<not> adjacent_spaces s \<Longrightarrow> \<not> adjacent_spaces (strip s)"
proof -
  assume a: "\<not> adjacent_spaces s"
  from strip_decompose [of s] obtain pre post where s: "s = pre @ strip s @ post" by blast
  show ?thesis
  proof
    assume "adjacent_spaces (strip s)"
    then have "adjacent_spaces (strip s @ post)" by (simp add: adjacent_spaces_append)
    then have "adjacent_spaces (pre @ strip s @ post)" by (simp add: adjacent_spaces_append)
    with s a show False by simp
  qed
qed

lemma stripped_strip: "stripped (strip s)"
proof (cases "strip s = []")
  case True
  then show ?thesis by (simp add: stripped_def)
next
  case False
  let ?l = "dropWhile isspace s"
  let ?r = "dropWhile isspace (rev ?l)"
  from False have r: "?r \<noteq> []" by (simp add: strip_def lstrip_def rstrip_def)
  then have "\<not> isspace (hd ?r)" by (rule hd_dropWhile)
  with r have last: "\<not> isspace (last (strip s))"
    by (simp add: strip_def lstrip_def rstrip_def last_rev)
  have l: "?l \<noteq> []"
  proof
    assume "?l = []"
    then have "?r = []" by (simp only: rev.simps dropWhile.simps)
    with r show False by contradiction
  qed
  then have hl: "\<not> isspace (hd ?l)" by (rule hd_dropWhile)
  from strip_decompose [of ?l] obtain pre post where d: "?l = pre @ strip ?l @ post" by blast
  have sl: "strip ?l = strip s" by (simp add: strip_def lstrip_def)
  have "hd (strip s) = hd ?l"
  proof -
    have "rev ?l = takeWhile isspace (rev ?l) @ ?r" by simp
    then have "?l = rev ?r @ rev (takeWhile isspace (rev ?l))"
      by (metis rev_append rev_rev_ident)
    moreover have "rev ?r = strip s" by (simp add: strip_def lstrip_def rstrip_def)
    ultimately have "?l = strip s @ rev (takeWhile isspace (rev ?l))" by simp
    with False show ?thesis by (metis hd_append2)
  qed
  with hl last False show ?thesis by (simp add: stripped_def)
qed


lemma clean_char_facts:
  assumes "clean_char c"
  shows "kept c" and "\<not> emoji c" and "c \<noteq> 58" and "c \<noteq> 46" and "isspace c \<Longrightarrow> c = 32"
  using assms by (auto simp: clean_char_def kept_def emoji_def isspace_def)

lemma kept_clean: "kept c \<Longrightarrow> \<not> isspace c \<Longrightarrow> clean_char c"
  by (auto simp: clean_char_def kept_def)

lemma clean_char_space: "clean_char 32"
  by (simp add: clean_char_def)

lemma clean_text_chars: "list_all clean_char (clean_text lower x)"
proof (cases x)
  case None
  then show ?thesis by (simp add: clean_text_def)
next
  case (Some v0)
  let ?v4 = "map (\<lambda>c. if kept c then c else 32)
               (lower (runs_sub emoji False (url_sub False v0)))"
  have "clean_char c" if "c \<in> set (strip (runs_sub isspace False ?v4))" for c
  proof -
    from that have "c \<in> set (runs_sub isspace False ?v4)"
      using strip_subset by blast
    then have "c = 32 \<or> (c \<in> set ?v4 \<and> \<not> isspace c)" by (rule runs_sub_set)
    then show ?thesis
    proof
      assume "c = 32"
      then show ?thesis by (simp add: clean_char_space)
    next
      assume c: "c \<in> set ?v4 \<and> \<not> isspace c"
      then have "kept c \<or> c = 32" by auto
      with c show ?thesis by (auto simp: kept_clean clean_char_space)
    qed
  qed
  with Some show ?thesis by (simp add: clean_text_def Let_def list_all_iff)
qed

lemma clean_text_spaces: "\<not> adjacent_spaces (clean_text lower x)"
  by (cases x) (simp_all add: clean_text_def Let_def strip_spaces runs_sub_spaces)

lemma clean_text_stripped: "stripped (clean_text lower x)"
  by (cases x) (simp_all add: clean_text_def Let_def stripped_strip, simp add: stripped_def)

lemma imatch_prefix_nth:
  "imatch_prefix p s \<Longrightarrow> i < length p \<Longrightarrow> i < length s \<and> imatch (p ! i) (s ! i)"
  by (auto simp: imatch_prefix_def list_all2_conv_all_nth)

lemma no_url_without_colon_dot:
  assumes "\<forall>c\<in>set s. c \<noteq> 58 \<and> c \<noteq> 46"
  shows "\<not> url_at s"
proof
  assume "url_at s"
  then consider (a) "imatch_prefix (u ''s://'') (drop 4 s)"
    | (b) "imatch_prefix (u ''://'') (drop 4 s)"
    | (c) "imatch_prefix (u ''www.'') s"
    by (auto simp: url_at_def)
  then show False
  proof cases
    case a
    from imatch_prefix_nth [OF a, of 1] have "1 < length (drop 4 s)" and "drop 4 s ! 1 = 58"
      by (simp_all add: u_def imatch_def)
    then have "s ! 5 = 58" and "5 < length s" by simp_all
    then have "58 \<in> set s" by (metis nth_mem)
    with assms show False by blast
  next
    case b
    from imatch_prefix_nth [OF b, of 0] have "0 < length (drop 4 s)" and "drop 4 s ! 0 = 58"
      by (simp_all add: u_def imatch_def)
    then have "s ! 4 = 58" and "4 < length s" by simp_all
    then have "58 \<in> set s" by (metis nth_mem)
    with assms show False by blast
  next
    case c
    from imatch_prefix_nth [OF c, of 3] have "3 < length s" and "s ! 3 = 46"
      by (simp_all add: u_def imatch_def)
    then have "46 \<in> set s" by (metis nth_mem)
    with assms show False by blast
  qed
qed

lemma url_sub_id: "\<forall>c\<in>set s. c \<noteq> 58 \<and> c \<noteq> 46 \<Longrightarrow> url_sub False s = s"
proof (induction s)
  case Nil
  then show ?case by simp
next
  case (Cons c cs)
  then have "\<not> url_at (c # cs)" by (intro no_url_without_colon_dot) simp
  with Cons show ?case by simp
qed

lemma runs_sub_id: "\<forall>c\<in>set s. \<not> P c \<Longrightarrow> runs_sub P b s = s"
  by (induction s arbitrary: b) simp_all

lemma runs_sub_spaces_id:
  "\<not> adjacent_spaces s \<Longrightarrow> \<forall>c\<in>set s. isspace c \<longrightarrow> c = 32 \<Longrightarrow>
   (b \<longrightarrow> s = [] \<or> \<not> isspace (hd s)) \<Longrightarrow> runs_sub isspace b s = s"
proof (induction s arbitrary: b)
  case Nil
  then show ?case by simp
next
  case (Cons c cs)
  from Cons.prems(1) have adj: "\<not> adjacent_spaces cs"
    and nxt: "isspace c \<Longrightarrow> cs = [] \<or> \<not> isspace (hd cs)"
    by (simp_all add: adjacent_spaces_Cons)
  from Cons.prems(2) have all: "\<forall>c\<in>set cs. isspace c \<longrightarrow> c = 32" by simp
  show ?case
  proof (cases "isspace c")
    case True
    with Cons.prems(3) have nb: "\<not> b" by simp
    from True Cons.prems(2) have c: "c = 32" by simp
    from nxt [OF True] have "True \<longrightarrow> cs = [] \<or> \<not> isspace (hd cs)" by simp
    with adj all have "runs_sub isspace True cs = cs" by (rule Cons.IH)
    with True nb c show ?thesis by simp
  next
    case False
    have "False \<longrightarrow> cs = [] \<or> \<not> isspace (hd cs)" by simp
    with adj all have "runs_sub isspace False cs = cs" by (rule Cons.IH)
    with False show ?thesis by simp
  qed
qed

lemma strip_id: "stripped s \<Longrightarrow> strip s = s"
proof (cases "s = []")
  case True
  then show ?thesis by (simp add: strip_def lstrip_def rstrip_def)
next
  case False
  assume "stripped s"
  with False have h: "\<not> isspace (hd s)" and l: "\<not> isspace (last s)"
    by (simp_all add: stripped_def)
  from False h have "dropWhile isspace s = s" by (cases s) simp_all
  moreover have "dropWhile isspace (rev s) = rev s"
  proof -
    from False obtain x xs where r: "rev s = x # xs" by (cases "rev s") simp_all
    then have "x = last s" by (metis hd_rev list.sel(1))
    with l have "dropWhile isspace (x # xs) = x # xs" by simp
    with r show ?thesis by (simp only:)
  qed
  ultimately show ?thesis by (simp add: strip_def lstrip_def rstrip_def)
qed

lemma clean_text_fixed:
  assumes "list_all clean_char s" and "\<not> adjacent_spaces s" and "stripped s" and "lower s = s"
  shows "clean_text lower (Some s) = s"
proof -
  from assms(1) have c: "\<forall>c\<in>set s. clean_char c" by (simp add: list_all_iff)
  then have "url_sub False s = s" by (intro url_sub_id) (auto dest: clean_char_facts)
  moreover from c have "runs_sub emoji False s = s" by (intro runs_sub_id) (auto dest: clean_char_facts)
  moreover from c have "map (\<lambda>c. if kept c then c else 32) s = s"
    by (intro map_idI) (auto dest: clean_char_facts)
  moreover from c assms(2) have "runs_sub isspace False s = s"
    by (intro runs_sub_spaces_id) (auto dest: clean_char_facts)
  moreover from assms(3) have "strip s = s" by (rule strip_id)
  ultimately show ?thesis using assms(4) by (simp add: clean_text_def)
qed

lemma ascii_lower_clean: "list_all clean_char s \<Longrightarrow> ascii_lower s = s"
  by (auto simp: ascii_lower_def list_all_iff clean_char_def intro!: map_idI)

lemma noisy_comment_cleaned:
  "clean_text ascii_lower (Some noisy_comment)
     = u ''visit now it is ok www http '' @ [0x915, 0x916] @ u '' a end''"
  by (simp add: noisy_comment_def clean_defs)

text \<open>
  Claim C10. \<open>clean_text(None)\<close> is the empty string. Every result of \<open>clean_text\<close> is
  made of ASCII digits, lowercase ASCII letters, Devanagari characters and spaces, has
  no two neighbouring spaces, and neither begins nor ends with whitespace. And
  \<open>clean_text\<close> is idempotent, given of \<open>str.lower\<close> that it leaves a text of such
  characters as it is.
\<close>

theorem clean_text_idempotent:
  "clean_text lower None = [] \<and>
   list_all clean_char (clean_text lower x) \<and>
   \<not> adjacent_spaces (clean_text lower x) \<and>
   stripped (clean_text lower x) \<and>
   ((\<forall>s. list_all clean_char s \<longrightarrow> lower s = s) \<longrightarrow>
      clean_text lower (Some (clean_text lower x)) = clean_text lower x)"
  using clean_text_chars [of lower x] clean_text_spaces [of lower x] clean_text_stripped [of lower x]
    clean_text_fixed [of "clean_text lower x" lower]
  by (simp add: clean_text_def)

theorem clean_text_idempotent_witness:
  "clean_text ascii_lower (Some noisy_comment)
     = u ''visit now it is ok www http '' @ [0x915, 0x916] @ u '' a end'' \<and>
   clean_text ascii_lower (Some (clean_text ascii_lower (Some noisy_comment)))
     = clean_text ascii_lower (Some noisy_comment)"
  using clean_text_idempotent [of ascii_lower "Some noisy_comment"] ascii_lower_clean
    noisy_comment_cleaned
  by blast


section \<open>The anonymised author\<close>

text \<open>
  The \<open>username_hash\<close> of a record is the digest of the author's display name and of
  nothing else: two items with the same author get the same value, whatever the video
  and the other entries. It differs from the name whenever the name does not itself
  have the shape of a digest. Whether some text of 64 hexadecimal digits is its own
  SHA-256 digest is not known, so the second half of claim C9, which speaks of every
  name, is neither proved nor refuted here.
\<close>

lemma username_hash_of_author:
  "make_record sha256_hex t1 it1 = Inr r1 \<Longrightarrow> make_record sha256_hex t2 it2 = Inr r2 \<Longrightarrow>
   authorDisplayName it1 = authorDisplayName it2 \<Longrightarrow> username_hash r1 = username_hash r2"
  by (auto simp: make_record_def Let_def split: if_splits)

lemma username_hash_differs:
  "digest_shaped (sha256_hex author) \<Longrightarrow> \<not> digest_shaped author \<Longrightarrow>
   make_record sha256_hex t (comment author txt) = Inr r \<Longrightarrow> username_hash r \<noteq> author"
  by (auto simp: make_record_def Let_def comment_def no_item_def str_of_def split: if_splits)

end
